theory Spec2Isabelle
  imports Main
begin

section \<open>Go library functions used by the parser\<close>

text \<open>
  Go strings are byte sequences; \<open>string\<close> (a list of 8-bit characters) models them.
  The parser relies on \<open>strings.Split\<close>, \<open>strings.HasSuffix\<close>, \<open>strconv.Atoi\<close>,
  \<open>fmt.Errorf\<close> and \<open>time.Parse\<close> of the Go standard library; this section models
  them as far as the parser calls them.
\<close>

subsection \<open>strings.Split at the separator colon-space\<close>

text \<open>
  \<open>Cut_sep s\<close> looks for the leftmost occurrence of the two bytes colon, space in \<open>s\<close>
  (what \<open>strings.Index(s, ": ")\<close> finds) and returns the text before it and the text
  after it, or \<open>None\<close> when there is no occurrence.
\<close>

fun Cut_sep :: "string \<Rightarrow> (string \<times> string) option" where
  "Cut_sep [] = None"
| "Cut_sep [c] = None"
| "Cut_sep (c # d # cs) =
     (if c = CHR '':'' \<and> d = CHR '' '' then Some ([], cs)
      else (case Cut_sep (d # cs) of
              None \<Rightarrow> None
            | Some (a, b) \<Rightarrow> Some (c # a, b)))"

lemma Cut_sep_length: "Cut_sep s = Some (a, b) \<Longrightarrow> length b < length s"
  by (induction s arbitrary: a b rule: Cut_sep.induct)
     (auto split: if_splits option.splits)

text \<open>
  \<open>strings.Split(s, ": ")\<close>: the loop of \<open>genSplit\<close> cuts at the leftmost occurrence,
  keeps the text before it and goes on with the text after it; the last piece is what
  remains. The result always has at least one element.
\<close>

function Split :: "string \<Rightarrow> string list" where
  "Split s = (case Cut_sep s of
                None \<Rightarrow> [s]
              | Some (a, b) \<Rightarrow> a # Split b)"
  by pat_completeness auto
termination
  by (relation "measure length") (auto simp: Cut_sep_length)

declare Split.simps [simp del]

subsection \<open>strings.HasSuffix\<close>

definition HasSuffix :: "string \<Rightarrow> string \<Rightarrow> bool" where
  "HasSuffix s suffix =
     (length suffix \<le> length s \<and> drop (length s - length suffix) s = suffix)"

subsection \<open>Errors\<close>

text \<open>
  Go's \<open>error\<close> values, as far as the parser meets them. \<open>Errorf msg\<close> is the error
  \<open>fmt.Errorf\<close> builds from a format without \<open>%w\<close>, carrying the formatted message.
  \<open>ErrorfW pre e\<close> is the error \<open>fmt.Errorf\<close> builds from a format that ends in
  \<open>%w\<close>: the text before the verb, and the wrapped error. \<open>NumError fn num k\<close> is
  \<open>*strconv.NumError\<close>, \<open>TimeParseError k\<close> is \<open>*time.ParseError\<close>, and
  \<open>ReadError msg\<close> stands for whatever error the reader or the scanner stops with.
\<close>

datatype num_error_kind = ErrSyntax | ErrRange

datatype time_error_kind =
    Mismatch
  | OutOfRange string
  | ExtraText string

datatype go_error =
    Errorf string
  | ErrorfW string go_error
  | NumError string string num_error_kind
  | TimeParseError time_error_kind
  | ReadError string

subsection \<open>strconv.Atoi and the verb %d\<close>

definition digit_val :: "char \<Rightarrow> nat option" where
  "digit_val c = map_of
     [(CHR ''0'', 0), (CHR ''1'', 1), (CHR ''2'', 2), (CHR ''3'', 3), (CHR ''4'', 4),
      (CHR ''5'', 5), (CHR ''6'', 6), (CHR ''7'', 7), (CHR ''8'', 8), (CHR ''9'', 9)] c"

definition isDigit :: "char \<Rightarrow> bool" where
  "isDigit c = (digit_val c \<noteq> None)"

text \<open>The value of a string of decimal digits, most significant first.\<close>

fun decimal :: "nat \<Rightarrow> string \<Rightarrow> nat" where
  "decimal n [] = n"
| "decimal n (c # cs) = decimal (n * 10 + the (digit_val c)) cs"

text \<open>
  The loop of \<open>strconv.ParseUint\<close> in base 10 at 64 bits, from the value \<open>n\<close> read so
  far: a byte that is not a decimal digit (an underscore too) is a syntax error, a digit
  that takes the value beyond \<open>2^64 - 1\<close> is a range error, whichever comes first.
\<close>

fun scan_digits :: "int \<Rightarrow> string \<Rightarrow> num_error_kind + int" where
  "scan_digits n [] = Inr n"
| "scan_digits n (c # cs) =
     (case digit_val c of
        None \<Rightarrow> Inl ErrSyntax
      | Some d \<Rightarrow>
          if 2 ^ 64 - 1 < n * 10 + int d then Inl ErrRange
          else scan_digits (n * 10 + int d) cs)"

text \<open>
  \<open>strconv.Atoi\<close> on a 64-bit platform (its fast path and \<open>ParseInt(s, 10, 0)\<close> give
  the same results): the empty string is a syntax error; an optional sign is taken off,
  and nothing left is a syntax error; the digits are read by the loop above; the value
  has to fit \<open>int\<close>, else it is a range error. The error names the function and the
  whole string.
\<close>

definition Atoi :: "string \<Rightarrow> go_error + int" where
  "Atoi s =
     (if s = [] then Inl (NumError ''Atoi'' s ErrSyntax)
      else
        (let neg = (hd s = CHR ''-'');
             ds = (if hd s = CHR ''-'' \<or> hd s = CHR ''+'' then tl s else s)
         in if ds = [] then Inl (NumError ''Atoi'' s ErrSyntax)
            else
              (case scan_digits 0 ds of
                 Inl k \<Rightarrow> Inl (NumError ''Atoi'' s k)
               | Inr un \<Rightarrow>
                   if \<not> neg \<and> 2 ^ 63 \<le> un then Inl (NumError ''Atoi'' s ErrRange)
                   else if neg \<and> 2 ^ 63 < un then Inl (NumError ''Atoi'' s ErrRange)
                   else Inr (if neg then - un else un))))"

text \<open>What \<open>%d\<close> prints for an \<open>int\<close>: the decimal digits, after a minus sign if negative.\<close>

fun digits :: "nat \<Rightarrow> string" where
  "digits n = (if n < 10 then [''0123456789'' ! n]
               else digits (n div 10) @ [''0123456789'' ! (n mod 10)])"

declare digits.simps [simp del]

definition Itoa :: "int \<Rightarrow> string" where
  "Itoa i = (if i < 0 then CHR ''-'' # digits (nat (- i)) else digits (nat i))"

subsection \<open>time.Parse at the two layouts of the parser\<close>

text \<open>
  A \<open>time.Time\<close> in UTC, held as its calendar fields. \<open>time.Parse\<close> checks every field's
  range before it calls \<open>time.Date\<close>, so no normalisation takes place and the fields
  identify the instant.
\<close>

record Time =
  Year :: int
  Month :: int
  Day :: int
  Hour :: int
  Minute :: int
  Second :: int
  Nanosecond :: int

text \<open>The zero value \<open>time.Time{}\<close>: January 1, year 1, 00:00:00 UTC.\<close>

definition zero_Time :: Time where
  "zero_Time = \<lparr>Year = 1, Month = 1, Day = 1, Hour = 0, Minute = 0, Second = 0,
                 Nanosecond = 0\<rparr>"

text \<open>
  The elements \<open>nextStdChunk\<close> recognises in the two layouts, and the layouts as the
  sequence of chunks it cuts them into: the literal text before an element, and the
  element.
\<close>

datatype std =
    stdZeroMonth | stdZeroDay | stdLongYear | stdHour | stdZeroHour12
  | stdZeroMinute | stdZeroSecond | stdPM

text \<open>The layout \<open>"01/02/2006 15:04:05"\<close>.\<close>

definition layout24 :: "(string \<times> std) list" where
  "layout24 =
     [([], stdZeroMonth), (''/'', stdZeroDay), (''/'', stdLongYear), ('' '', stdHour),
      ('':'', stdZeroMinute), ('':'', stdZeroSecond)]"

text \<open>The layout \<open>"01/02/2006 03:04:05 PM"\<close>.\<close>

definition layout12 :: "(string \<times> std) list" where
  "layout12 =
     [([], stdZeroMonth), (''/'', stdZeroDay), (''/'', stdLongYear), ('' '', stdZeroHour12),
      ('':'', stdZeroMinute), ('':'', stdZeroSecond), ('' '', stdPM)]"

text \<open>
  \<open>getnum\<close>: one or two decimal digits; with \<open>fixed\<close>, exactly two. \<open>None\<close> is
  \<open>errBad\<close>.
\<close>

definition getnum :: "string \<Rightarrow> bool \<Rightarrow> (int \<times> string) option" where
  "getnum s fixed =
     (case s of
        [] \<Rightarrow> None
      | c # r \<Rightarrow>
          (case digit_val c of
             None \<Rightarrow> None
           | Some a \<Rightarrow>
               (case r of
                  [] \<Rightarrow> if fixed then None else Some (int a, r)
                | d # r' \<Rightarrow>
                    (case digit_val d of
                       None \<Rightarrow> if fixed then None else Some (int a, r)
                     | Some b \<Rightarrow> Some (int a * 10 + int b, r')))))"

definition cutspace :: "string \<Rightarrow> string" where
  "cutspace s = dropWhile (\<lambda>c. c = CHR '' '') s"

lemma cutspace_length: "length (cutspace s) \<le> length s"
  by (simp add: cutspace_def length_dropWhile_le)

text \<open>
  \<open>skip value prefix\<close>: the literal text of the layout has to lead the value; a space
  of the layout stands for any run of spaces of the value (an empty run only at the end
  of the value).
\<close>

function skip :: "string \<Rightarrow> string \<Rightarrow> string option" where
  "skip value [] = Some value"
| "skip value (p # ps) =
     (if p = CHR '' '' then
        (if value \<noteq> [] \<and> hd value \<noteq> CHR '' '' then None
         else skip (cutspace value) (cutspace ps))
      else if value = [] \<or> hd value \<noteq> p then None
      else skip (tl value) ps)"
  by pat_completeness auto
termination
  by (relation "measure (\<lambda>(v, p). length p)")
     (auto simp: cutspace_length le_imp_less_Suc)

text \<open>The fields \<open>parse\<close> collects, with the values it starts from.\<close>

record fields =
  f_year :: int
  f_month :: int
  f_day :: int
  f_hour :: int
  f_min :: int
  f_sec :: int
  f_nsec :: int
  amSet :: bool
  pmSet :: bool

definition init_fields :: fields where
  "init_fields = \<lparr>f_year = 0, f_month = - 1, f_day = - 1, f_hour = 0, f_min = 0,
                   f_sec = 0, f_nsec = 0, amSet = False, pmSet = False\<rparr>"

definition commaOrPeriod :: "char \<Rightarrow> bool" where
  "commaOrPeriod c = (c = CHR ''.'' \<or> c = CHR '','')"

text \<open>
  \<open>parseNanoseconds value n\<close>, called with \<open>value\<close> starting with a comma or period
  followed by \<open>n - 1\<close> digits: at most nine digits count, scaled to nanoseconds.
\<close>

definition parseNanoseconds :: "string \<Rightarrow> nat \<Rightarrow> int" where
  "parseNanoseconds value n =
     (let nbytes = min n 10
      in int (decimal 0 (take (nbytes - 1) (drop 1 value))) * 10 ^ (10 - nbytes))"

text \<open>
  One element of the layout against the value, as the cases of the \<open>switch\<close> in
  \<open>parse\<close> treat it: \<open>Inl Mismatch\<close> is \<open>errBad\<close>, \<open>Inl (OutOfRange f)\<close> is a
  range error of the field \<open>f\<close>. After the seconds, a comma or period followed by
  digits is read as a fractional second although the layout has none (a seconds field
  that is missing is \<open>errBad\<close> before the fractional part is looked at, as in current
  toolchains).
\<close>

definition parse_std :: "std \<Rightarrow> string \<Rightarrow> fields \<Rightarrow> time_error_kind + (fields \<times> string)" where
  "parse_std s value f =
     (case s of
        stdLongYear \<Rightarrow>
          if length value < 4 \<or> \<not> isDigit (hd value) then Inl Mismatch
          else if \<not> list_all isDigit (take 4 value) then Inl Mismatch
          else Inr (f\<lparr>f_year := int (decimal 0 (take 4 value))\<rparr>, drop 4 value)
      | stdZeroMonth \<Rightarrow>
          (case getnum value True of
             None \<Rightarrow> Inl Mismatch
           | Some (month, v) \<Rightarrow>
               if month \<le> 0 \<or> 12 < month then Inl (OutOfRange ''month'')
               else Inr (f\<lparr>f_month := month\<rparr>, v))
      | stdZeroDay \<Rightarrow>
          (case getnum value True of
             None \<Rightarrow> Inl Mismatch
           | Some (day, v) \<Rightarrow> Inr (f\<lparr>f_day := day\<rparr>, v))
      | stdHour \<Rightarrow>
          (case getnum value False of
             None \<Rightarrow> Inl Mismatch
           | Some (hour, v) \<Rightarrow>
               if hour < 0 \<or> 24 \<le> hour then Inl (OutOfRange ''hour'')
               else Inr (f\<lparr>f_hour := hour\<rparr>, v))
      | stdZeroHour12 \<Rightarrow>
          (case getnum value True of
             None \<Rightarrow> Inl Mismatch
           | Some (hour, v) \<Rightarrow>
               if hour < 0 \<or> 12 < hour then Inl (OutOfRange ''hour'')
               else Inr (f\<lparr>f_hour := hour\<rparr>, v))
      | stdZeroMinute \<Rightarrow>
          (case getnum value True of
             None \<Rightarrow> Inl Mismatch
           | Some (minute, v) \<Rightarrow>
               if minute < 0 \<or> 60 \<le> minute then Inl (OutOfRange ''minute'')
               else Inr (f\<lparr>f_min := minute\<rparr>, v))
      | stdZeroSecond \<Rightarrow>
          (case getnum value True of
             None \<Rightarrow> Inl Mismatch
           | Some (sec, v) \<Rightarrow>
               if sec < 0 \<or> 60 \<le> sec then Inl (OutOfRange ''second'')
               else if 2 \<le> length v \<and> commaOrPeriod (v ! 0) \<and> isDigit (v ! 1) then
                 (let n = 2 + length (takeWhile isDigit (drop 2 v))
                  in Inr (f\<lparr>f_sec := sec, f_nsec := parseNanoseconds v n\<rparr>, drop n v))
               else Inr (f\<lparr>f_sec := sec\<rparr>, v))
      | stdPM \<Rightarrow>
          if length value < 2 then Inl Mismatch
          else if take 2 value = ''PM'' then Inr (f\<lparr>pmSet := True\<rparr>, drop 2 value)
          else if take 2 value = ''AM'' then Inr (f\<lparr>amSet := True\<rparr>, drop 2 value)
          else Inl Mismatch)"

text \<open>
  The loop of \<open>parse\<close>: each chunk skips its literal text and reads its element; once
  the layout is used up, text left over in the value is an error.
\<close>

fun parse_chunks :: "(string \<times> std) list \<Rightarrow> string \<Rightarrow> fields \<Rightarrow> time_error_kind + fields" where
  "parse_chunks [] value f = (if value \<noteq> [] then Inl (ExtraText value) else Inr f)"
| "parse_chunks ((prefix, s) # layout) value f =
     (case skip value prefix of
        None \<Rightarrow> Inl Mismatch
      | Some v \<Rightarrow>
          (case parse_std s v f of
             Inl e \<Rightarrow> Inl e
           | Inr (f', v') \<Rightarrow> parse_chunks layout v' f'))"

definition isLeap :: "int \<Rightarrow> bool" where
  "isLeap y = (y mod 4 = 0 \<and> (y mod 100 \<noteq> 0 \<or> y mod 400 = 0))"

definition daysIn :: "int \<Rightarrow> int \<Rightarrow> int" where
  "daysIn m y =
     (if m = 2 then (if isLeap y then 29 else 28)
      else if m = 4 \<or> m = 6 \<or> m = 9 \<or> m = 11 then 30
      else 31)"

text \<open>
  \<open>time.Parse(layout, value)\<close>: after the loop, AM and PM adjust the hour, a month or
  day the layout did not set becomes 1, the day is checked against the month, and the
  time is built in UTC.
\<close>

definition time_Parse :: "(string \<times> std) list \<Rightarrow> string \<Rightarrow> go_error + Time" where
  "time_Parse layout value =
     (case parse_chunks layout value init_fields of
        Inl e \<Rightarrow> Inl (TimeParseError e)
      | Inr f \<Rightarrow>
          (let hour = (if pmSet f \<and> f_hour f < 12 then f_hour f + 12
                       else if amSet f \<and> f_hour f = 12 then 0
                       else f_hour f);
               month = (if f_month f < 0 then 1 else f_month f);
               day = (if f_day f < 0 then 1 else f_day f)
           in if day < 1 \<or> daysIn month (f_year f) < day
              then Inl (TimeParseError (OutOfRange ''day''))
              else Inr \<lparr>Year = f_year f, Month = month, Day = day, Hour = hour,
                        Minute = f_min f, Second = f_sec f, Nanosecond = f_nsec f\<rparr>))"

section \<open>The parser\<close>

subsection \<open>Entries\<close>

record Entry =
  Author :: string
  Title :: string
  Basename :: string
  Status :: string
  AllowComments :: int
  AllowPings :: int
  ConvertBreaks :: string
  Date :: Time
  PrimaryCategory :: string
  Category :: "string list"
  Image :: string
  Body :: string
  ExtendedBody :: string
  Excerpt :: string
  Keywords :: string
  Comment :: string

definition DefaultAllowComments :: int where
  "DefaultAllowComments = - 1"

definition DefaultAllowPings :: int where
  "DefaultAllowPings = - 1"

text \<open>\<open>NewEntry\<close>: the two defaults, and Go's zero value in every other field.\<close>

definition NewEntry :: Entry where
  "NewEntry =
     \<lparr>Author = [], Title = [], Basename = [], Status = [],
      AllowComments = DefaultAllowComments, AllowPings = DefaultAllowPings,
      ConvertBreaks = [], Date = zero_Time, PrimaryCategory = [], Category = [],
      Image = [], Body = [], ExtendedBody = [], Excerpt = [], Keywords = [],
      Comment = []\<rparr>"

subsection \<open>The scanner\<close>

text \<open>
  A \<open>bufio.Scanner\<close> over the reader, as \<open>Parse\<close> meets it: the lines that successive
  calls of \<open>Scan\<close> and \<open>Text\<close> yield, and the error the scanner stopped with
  (\<open>None\<close> at a clean end of the stream), which \<open>scanner.Err()\<close> would report once
  \<open>Scan\<close> has returned false.
\<close>

record Scanner =
  pending :: "string list"
  scan_err :: "go_error option"

subsection \<open>Parse\<close>

text \<open>
  The inner loops of the multi-line fields: lines are appended to the field, each with a
  newline, until the line \<open>-----\<close> or the end of the lines. The result is the field and
  the lines not yet read.
\<close>

fun capture :: "string list \<Rightarrow> string \<Rightarrow> string \<times> string list" where
  "capture [] field = (field, [])"
| "capture (line # rest) field =
     (if line = ''-----'' then (field, rest)
      else capture rest (field @ line @ [CHR 0x0A]))"

lemma capture_length: "length (snd (capture ls field)) \<le> length ls"
  by (induction ls arbitrary: field) (auto simp: le_SucI)

text \<open>The \<open>switch value\<close> of a line without the separator.\<close>

definition multi_line :: "string \<Rightarrow> string list \<Rightarrow> Entry \<Rightarrow> Entry \<times> string list" where
  "multi_line value rest m =
     (if value = ''BODY:'' then
        (case capture rest (Body m) of (t, rest') \<Rightarrow> (m\<lparr>Body := t\<rparr>, rest'))
      else if value = ''EXTENDED BODY:'' then
        (case capture rest (ExtendedBody m) of (t, rest') \<Rightarrow> (m\<lparr>ExtendedBody := t\<rparr>, rest'))
      else if value = ''EXCERPT:'' then
        (case capture rest (Excerpt m) of (t, rest') \<Rightarrow> (m\<lparr>Excerpt := t\<rparr>, rest'))
      else if value = ''KEYWORDS:'' then
        (case capture rest (Keywords m) of (t, rest') \<Rightarrow> (m\<lparr>Keywords := t\<rparr>, rest'))
      else if value = ''COMMENT:'' then
        (case capture rest (Comment m) of (t, rest') \<Rightarrow> (m\<lparr>Comment := t\<rparr>, rest'))
      else (m, rest))"

lemma multi_line_length: "length (snd (multi_line value rest m)) \<le> length rest"
  by (simp add: multi_line_def case_prod_beta capture_length)

text \<open>The \<open>switch key\<close> of a line \<open>key: value\<close>.\<close>

definition single_line :: "string \<Rightarrow> string \<Rightarrow> Entry \<Rightarrow> go_error + Entry" where
  "single_line key value m =
     (if key = ''AUTHOR'' then Inr (m\<lparr>Author := value\<rparr>)
      else if key = ''TITLE'' then Inr (m\<lparr>Title := value\<rparr>)
      else if key = ''BASENAME'' then Inr (m\<lparr>Basename := value\<rparr>)
      else if key = ''STATUS'' then
        (if value = ''Draft'' \<or> value = ''Publish'' \<or> value = ''Future''
         then Inr (m\<lparr>Status := value\<rparr>)
         else Inl (Errorf
           (''STATUS column is allowed only Draft or Publish or Future. Got '' @ value)))
      else if key = ''ALLOW COMMENTS'' then
        (case Atoi value of
           Inl e \<Rightarrow> Inl (ErrorfW ''ALLOW COMMENTS column is allowed only 0 or 1: '' e)
         | Inr n \<Rightarrow>
             (let m' = m\<lparr>AllowComments := n\<rparr>
              in if AllowComments m' \<noteq> 0 \<and> AllowComments m' \<noteq> 1
                 then Inl (Errorf (''ALLOW COMMENTS column is allowed only 0 or 1. Got ''
                                    @ Itoa (AllowComments m')))
                 else Inr m'))
      else if key = ''ALLOW PINGS'' then
        (case Atoi value of
           Inl e \<Rightarrow> Inl (ErrorfW ''ALLOW PINGS column is allowed only 0 or 1: '' e)
         | Inr n \<Rightarrow>
             (let m' = m\<lparr>AllowPings := n\<rparr>
              in if AllowComments m' \<noteq> 0 \<and> AllowComments m' \<noteq> 1
                 then Inl (Errorf (''ALLOW PINGS column is allowed only 0 or 1. Got ''
                                    @ Itoa (AllowPings m')))
                 else Inr m'))
      else if key = ''CONVERT BREAKS'' then Inr (m\<lparr>ConvertBreaks := value\<rparr>)
      else if key = ''DATE'' then
        (case (if HasSuffix value ''AM'' \<or> HasSuffix value ''PM''
               then time_Parse layout12 value
               else time_Parse layout24 value) of
           Inl e \<Rightarrow> Inl (ErrorfW ''Parsing error on DATE column: '' e)
         | Inr t \<Rightarrow> Inr (m\<lparr>Date := t\<rparr>))
      else if key = ''PRIMARY CATEGORY'' then Inr (m\<lparr>PrimaryCategory := value\<rparr>)
      else if key = ''CATEGORY'' then Inr (m\<lparr>Category := Category m @ [value]\<rparr>)
      else if key = ''IMAGE'' then Inr (m\<lparr>Image := value\<rparr>)
      else Inr m)"

text \<open>
  The loop \<open>for scanner.Scan()\<close> of \<open>Parse\<close>, over the lines the scanner yields, with
  the entry in progress \<open>m\<close> and the entries sealed so far \<open>mts\<close>. A \<open>return nil, err\<close>
  inside the loop is \<open>Inl err\<close>; leaving the loop is \<open>Inr\<close> of the final \<open>mts\<close> and
  \<open>m\<close>.
\<close>

function scan_loop :: "string list \<Rightarrow> Entry \<Rightarrow> Entry list \<Rightarrow> go_error + (Entry list \<times> Entry)" where
  "scan_loop [] m mts = Inr (mts, m)"
| "scan_loop (line # rest) m mts =
     (let ss = Split line
      in if length ss \<le> 1 then
           (let value = ss ! 0
            in if value = ''--------'' then scan_loop rest NewEntry (mts @ [m])
               else if value = ''-----'' then scan_loop rest m mts
               else (case multi_line value rest m of
                       (m', rest') \<Rightarrow> scan_loop rest' m' mts))
         else
           (let key = ss ! 0; value = ss ! 1
            in if value \<noteq> ''COMMENT:'' then
                 (case single_line key value m of
                    Inl e \<Rightarrow> Inl e
                  | Inr m' \<Rightarrow> scan_loop rest m' mts)
               else scan_loop rest m mts))"
  by pat_completeness auto
termination
  apply (relation "measure (\<lambda>(ls, m, mts). length ls)")
     apply simp_all
  subgoal for line rest m x xa xb y
    using multi_line_length [of "Split line ! 0" rest m]
    by (metis snd_conv le_imp_less_Suc)
  done

declare scan_loop.simps(2) [simp del]

text \<open>
  \<open>Parse\<close> returns a pair: the entries and the error. After the loop it returns
  \<open>mts, nil\<close>; the scanner's error is not looked at.
\<close>

definition Parse :: "Scanner \<Rightarrow> Entry list \<times> go_error option" where
  "Parse scanner =
     (case scan_loop (pending scanner) NewEntry [] of
        Inl e \<Rightarrow> ([], Some e)
      | Inr (mts, m) \<Rightarrow> (mts, None))"

section \<open>Notions of the specification\<close>

text \<open>
  The definitions of this section are not taken from the code. They state, in the
  specification's words, what the properties below compare the parser with.
\<close>

text \<open>A text is plain when the separator colon-space does not occur in it.\<close>

definition plain :: "string \<Rightarrow> bool" where
  "plain v = (\<nexists>a b. v = a @ '': '' @ b)"

text \<open>
  The content of a multi-line block that starts with the lines \<open>ls\<close>: every line before
  the first line \<open>-----\<close>, each followed by a newline; and the lines left after that
  block.
\<close>

definition block_text :: "string list \<Rightarrow> string" where
  "block_text ls = concat (map (\<lambda>l. l @ [CHR 0x0A]) (takeWhile (\<lambda>l. l \<noteq> ''-----'') ls))"

definition after_block :: "string list \<Rightarrow> string list" where
  "after_block ls = drop 1 (dropWhile (\<lambda>l. l \<noteq> ''-----'') ls)"

text \<open>The five lines that open a multi-line block.\<close>

definition headers :: "string list" where
  "headers = [''BODY:'', ''EXTENDED BODY:'', ''EXCERPT:'', ''KEYWORDS:'', ''COMMENT:'']"

text \<open>
  The two modes of the specification: \<open>capturing c ls\<close> tells whether a reader that is
  in capture mode iff \<open>c\<close> is in capture mode after the lines \<open>ls\<close>. A header line
  enters capture mode, the line \<open>-----\<close> leaves it.
\<close>

fun capturing :: "bool \<Rightarrow> string list \<Rightarrow> bool" where
  "capturing c [] = c"
| "capturing c (l # ls) =
     capturing (if c then l \<noteq> ''-----'' else l \<in> set headers) ls"

text \<open>
  The number of record terminators among the lines: the lines \<open>--------\<close> met outside
  capture mode.
\<close>

fun terminators :: "bool \<Rightarrow> string list \<Rightarrow> nat" where
  "terminators c [] = 0"
| "terminators c (l # ls) =
     (if c then terminators (l \<noteq> ''-----'') ls
      else if l = ''--------'' then Suc (terminators False ls)
      else terminators (l \<in> set headers) ls)"

text \<open>A multi-line field is empty or ends with a newline.\<close>

definition nl_terminated :: "string \<Rightarrow> bool" where
  "nl_terminated s = (s = [] \<or> last s = CHR 0x0A)"

definition multi_fields_terminated :: "Entry \<Rightarrow> bool" where
  "multi_fields_terminated e =
     (nl_terminated (Body e) \<and> nl_terminated (ExtendedBody e) \<and> nl_terminated (Excerpt e)
      \<and> nl_terminated (Keywords e) \<and> nl_terminated (Comment e))"

text \<open>An entry with both sentinels, and a line that is not an ALLOW line.\<close>

definition has_defaults :: "Entry \<Rightarrow> bool" where
  "has_defaults e = (AllowComments e = - 1 \<and> AllowPings e = - 1)"

definition starts_with :: "string \<Rightarrow> string \<Rightarrow> bool" where
  "starts_with p line = (take (length p) line = p)"

definition omits_allow :: "string \<Rightarrow> bool" where
  "omits_allow line =
     (\<not> starts_with ''ALLOW COMMENTS: '' line \<and> \<not> starts_with ''ALLOW PINGS: '' line)"

text \<open>
  The categories of a record, read off its lines: a category line is a line that starts
  with \<open>CATEGORY: \<close> and stands outside capture mode, and its value is the rest of
  the line. \<open>category_plain c ls\<close> says that no category line among \<open>ls\<close> has the
  separator in its value; \<open>category_values c ls\<close> lists the values of the category lines
  other than \<open>COMMENT:\<close>, in the order of the lines, repeated values kept.
\<close>

definition category_value :: "string \<Rightarrow> string" where
  "category_value line = drop (length ''CATEGORY: '') line"

fun category_plain :: "bool \<Rightarrow> string list \<Rightarrow> bool" where
  "category_plain c [] = True"
| "category_plain c (l # ls) =
     (if c then category_plain (l \<noteq> ''-----'') ls
      else if starts_with ''CATEGORY: '' l
           then plain (category_value l) \<and> category_plain False ls
           else category_plain (l \<in> set headers) ls)"

fun category_values :: "bool \<Rightarrow> string list \<Rightarrow> string list" where
  "category_values c [] = []"
| "category_values c (l # ls) =
     (if c then category_values (l \<noteq> ''-----'') ls
      else if starts_with ''CATEGORY: '' l
           then (if category_value l = ''COMMENT:'' then category_values False ls
                 else category_value l # category_values False ls)
           else category_values (l \<in> set headers) ls)"

text \<open>
  Dates as the specification writes them: two-digit month, day, hour, minute and second,
  four-digit year; \<open>month/day/year hour:minute:second\<close>, in the 12-hour form followed
  by a space and \<open>AM\<close> or \<open>PM\<close>. A date is valid when the month is 1 to 12 and the
  day exists in that month of that year.
\<close>

definition digit :: "nat \<Rightarrow> char" where
  "digit k = ''0123456789'' ! k"

definition two :: "nat \<Rightarrow> string" where
  "two n = [digit (n div 10), digit (n mod 10)]"

definition four :: "nat \<Rightarrow> string" where
  "four n = [digit (n div 1000), digit (n div 100 mod 10), digit (n div 10 mod 10),
             digit (n mod 10)]"

definition date24 :: "nat \<Rightarrow> nat \<Rightarrow> nat \<Rightarrow> nat \<Rightarrow> nat \<Rightarrow> nat \<Rightarrow> string" where
  "date24 mo d y h mi s =
     two mo @ ''/'' @ two d @ ''/'' @ four y @ '' '' @ two h @ '':'' @ two mi @ '':'' @ two s"

definition date12 :: "nat \<Rightarrow> nat \<Rightarrow> nat \<Rightarrow> nat \<Rightarrow> nat \<Rightarrow> nat \<Rightarrow> bool \<Rightarrow> string" where
  "date12 mo d y h mi s pm =
     date24 mo d y h mi s @ (if pm then '' PM'' else '' AM'')"

definition valid_date :: "nat \<Rightarrow> nat \<Rightarrow> nat \<Rightarrow> bool" where
  "valid_date mo d y =
     (1 \<le> mo \<and> mo \<le> 12 \<and> 1 \<le> d \<and> int d \<le> daysIn (int mo) (int y) \<and> y < 10000)"

section \<open>Properties of the model\<close>

subsection \<open>Splitting a line\<close>

lemma Cut_sep_Some: "Cut_sep s = Some (a, b) \<Longrightarrow> s = a @ '': '' @ b"
  by (induction s arbitrary: a b rule: Cut_sep.induct)
     (auto split: if_splits option.splits)

lemma Cut_sep_append:
  "Cut_sep k = None \<Longrightarrow> Cut_sep (k @ CHR '':'' # CHR '' '' # v) = Some (k, v)"
  by (induction k rule: Cut_sep.induct) (auto split: if_splits option.splits)

lemma Cut_sep_None_iff: "Cut_sep s = None \<longleftrightarrow> (\<nexists>a b. s = a @ '': '' @ b)"
proof
  assume "Cut_sep s = None"
  show "\<nexists>a b. s = a @ '': '' @ b"
  proof
    assume "\<exists>a b. s = a @ '': '' @ b"
    then obtain a b where s: "s = a @ '': '' @ b" by blast
    have "Cut_sep s \<noteq> None"
      unfolding s
    proof (induction a)
      case Nil
      show ?case by simp
    next
      case (Cons c a)
      obtain d cs where "a @ '': '' @ b = d # cs"
        by (cases "a @ '': '' @ b") auto
      with Cons show ?case by (auto split: option.splits)
    qed
    with \<open>Cut_sep s = None\<close> show False by simp
  qed
next
  assume "\<nexists>a b. s = a @ '': '' @ b"
  then show "Cut_sep s = None"
    using Cut_sep_Some [of s] by (cases "Cut_sep s") auto
qed

lemma plain_Cut_sep: "plain v \<longleftrightarrow> Cut_sep v = None"
  by (simp only: plain_def Cut_sep_None_iff)

lemma plainD: "plain v \<Longrightarrow> Cut_sep v = None"
  by (simp add: plain_Cut_sep)

lemma Split_plain: "Cut_sep v = None \<Longrightarrow> Split v = [v]"
  by (simp add: Split.simps)

lemma Split_key_value:
  "Cut_sep k = None \<Longrightarrow> Cut_sep v = None \<Longrightarrow>
   Split (k @ CHR '':'' # CHR '' '' # v) = [k, v]"
  by (simp add: Split.simps [of "k @ CHR '':'' # CHR '' '' # v"] Cut_sep_append Split_plain)

lemma Split_append:
  "Cut_sep k = None \<Longrightarrow> Split (k @ CHR '':'' # CHR '' '' # b) = k # Split b"
  by (simp add: Split.simps [of "k @ CHR '':'' # CHR '' '' # b"] Cut_sep_append)

lemma Split_not_Nil: "Split s \<noteq> []"
  by (cases "Cut_sep s") (auto simp: Split.simps [of s])

lemma plain_keys [simp]:
  "Cut_sep ''AUTHOR'' = None" "Cut_sep ''TITLE'' = None" "Cut_sep ''BASENAME'' = None"
  "Cut_sep ''CONVERT BREAKS'' = None" "Cut_sep ''PRIMARY CATEGORY'' = None"
  "Cut_sep ''IMAGE'' = None" "Cut_sep ''STATUS'' = None" "Cut_sep ''CATEGORY'' = None"
  "Cut_sep ''DATE'' = None" "Cut_sep ''ALLOW COMMENTS'' = None"
  "Cut_sep ''ALLOW PINGS'' = None"
  by simp_all

lemma plain_headers [simp]:
  "Cut_sep ''BODY:'' = None" "Cut_sep ''EXTENDED BODY:'' = None" "Cut_sep ''EXCERPT:'' = None"
  "Cut_sep ''KEYWORDS:'' = None" "Cut_sep ''COMMENT:'' = None"
  by simp_all

lemma headers_plain: "line \<in> set headers \<Longrightarrow> Cut_sep line = None"
  by (auto simp: headers_def)

subsection \<open>One pass of the loop\<close>

lemma scan_loop_field:
  "Split line = key # v # others \<Longrightarrow> v \<noteq> ''COMMENT:'' \<Longrightarrow>
   scan_loop (line # rest) m mts =
     (case single_line key v m of Inl e \<Rightarrow> Inl e | Inr m' \<Rightarrow> scan_loop rest m' mts)"
  by (simp add: scan_loop.simps(2))

lemma scan_loop_guard:
  "Split line = key # ''COMMENT:'' # others \<Longrightarrow>
   scan_loop (line # rest) m mts = scan_loop rest m mts"
  by (simp add: scan_loop.simps(2))

lemma scan_loop_terminator:
  "scan_loop (''--------'' # rest) m mts = scan_loop rest NewEntry (mts @ [m])"
  by (simp add: scan_loop.simps(2) Split.simps)

lemma scan_loop_separator:
  "scan_loop (''-----'' # rest) m mts = scan_loop rest m mts"
  by (simp add: scan_loop.simps(2) Split.simps)

lemma scan_loop_multi:
  "Cut_sep line = None \<Longrightarrow> line \<noteq> ''--------'' \<Longrightarrow> line \<noteq> ''-----'' \<Longrightarrow>
   scan_loop (line # rest) m mts =
     scan_loop (snd (multi_line line rest m)) (fst (multi_line line rest m)) mts"
  by (simp add: scan_loop.simps(2) Split_plain case_prod_beta)

lemma scan_loop_key_value:
  assumes "Cut_sep k = None" and "Cut_sep v = None" and "v \<noteq> ''COMMENT:''"
  shows "scan_loop ((k @ CHR '':'' # CHR '' '' # v) # rest) m mts =
           (case single_line k v m of Inl e \<Rightarrow> Inl e | Inr m' \<Rightarrow> scan_loop rest m' mts)"
  using assms by (simp add: scan_loop_field [OF Split_key_value])

lemma scan_loop_split:
  "Cut_sep line = Some (k, b) \<Longrightarrow>
   scan_loop (line # ls) m mts =
     (if hd (Split b) = ''COMMENT:'' then scan_loop ls m mts
      else (case single_line k (hd (Split b)) m of
              Inl e \<Rightarrow> Inl e
            | Inr m' \<Rightarrow> scan_loop ls m' mts))"
  by (cases "Cut_sep b")
     (auto simp: scan_loop.simps(2) Split.simps [of line] Split.simps [of b])

lemma scan_loop_ignored:
  "Cut_sep line = None \<Longrightarrow> line \<noteq> ''--------'' \<Longrightarrow> line \<noteq> ''-----'' \<Longrightarrow>
   line \<notin> set headers \<Longrightarrow> scan_loop (line # ls) m mts = scan_loop ls m mts"
  by (simp add: headers_def scan_loop_multi multi_line_def)

subsection \<open>Multi-line blocks\<close>

lemma capture_eq: "capture ls field = (field @ block_text ls, after_block ls)"
  by (induction ls arbitrary: field) (auto simp: block_text_def after_block_def)

lemma block_text_Cons:
  "block_text (l # ls) = (if l = ''-----'' then [] else l @ [CHR 0x0A] @ block_text ls)"
  by (simp add: block_text_def)

lemma block_text_closed:
  "''-----'' \<notin> set b \<Longrightarrow> block_text (b @ ''-----'' # rest) = block_text b"
  by (induction b) (auto simp: block_text_def)

lemma after_block_closed:
  "''-----'' \<notin> set b \<Longrightarrow> after_block (b @ ''-----'' # rest) = rest"
  by (induction b) (auto simp: after_block_def)

lemma block_text_open:
  "''-----'' \<notin> set b \<Longrightarrow> block_text b = concat (map (\<lambda>l. l @ [CHR 0x0A]) b)"
  by (induction b) (auto simp: block_text_def)

lemma after_block_open: "''-----'' \<notin> set b \<Longrightarrow> after_block b = []"
  by (induction b) (auto simp: after_block_def)

lemma after_block_length: "length (after_block ls) \<le> length ls"
  by (simp add: after_block_def) (metis diff_le_self le_trans length_dropWhile_le)

lemma after_block_subset: "set (after_block ls) \<subseteq> set ls"
  unfolding after_block_def
  by (meson set_drop_subset set_dropWhileD subsetI subset_trans)

lemma block_text_nl: "nl_terminated (block_text ls)"
  by (induction ls) (auto simp: block_text_Cons nl_terminated_def block_text_def)

lemma nl_terminated_append:
  "nl_terminated a \<Longrightarrow> nl_terminated b \<Longrightarrow> nl_terminated (a @ b)"
  by (cases "b = []") (auto simp: nl_terminated_def)

lemma scan_loop_header:
  "line \<in> set headers \<Longrightarrow>
   scan_loop (line # ls) m mts =
     scan_loop (after_block ls) (fst (multi_line line ls m)) mts"
  by (auto simp: headers_def scan_loop_multi multi_line_def capture_eq)

lemma capturing_after_block:
  "\<not> capturing True ls \<Longrightarrow> \<not> capturing False (after_block ls)"
  by (induction ls) (auto simp: after_block_def split: if_splits)

lemma terminators_after_block: "terminators True ls = terminators False (after_block ls)"
  by (induction ls) (auto simp: after_block_def)

lemma after_block_append:
  "\<not> capturing True pre \<Longrightarrow> after_block (pre @ rest) = after_block pre @ rest"
  by (induction pre) (auto simp: after_block_def)

lemma block_text_append:
  "\<not> capturing True pre \<Longrightarrow> block_text (pre @ rest) = block_text pre"
  by (induction pre) (auto simp: block_text_def)

lemma multi_line_append:
  "line \<in> set headers \<Longrightarrow> \<not> capturing True pre \<Longrightarrow>
   fst (multi_line line (pre @ rest) m) = fst (multi_line line pre m)"
  by (auto simp: headers_def multi_line_def capture_eq block_text_append)

subsection \<open>Runs of lines\<close>

text \<open>Every line falls under exactly one of five kinds.\<close>

lemma line_kinds:
  obtains (terminator) "line = ''--------''"
  | (separator) "line = ''-----''"
  | (header) "line \<in> set headers"
  | (ignored) "Cut_sep line = None" "line \<noteq> ''--------''" "line \<noteq> ''-----''"
      "line \<notin> set headers"
  | (field) k b where "Cut_sep line = Some (k, b)"
  by (cases "Cut_sep line") auto

text \<open>
  Lines that end outside a multi-line block can be read first: the loop then goes on
  with the rest from the state they leave.
\<close>

lemma scan_loop_append:
  "\<not> capturing False pre \<Longrightarrow>
   scan_loop (pre @ rest) m mts =
     (case scan_loop pre m mts of
        Inl e \<Rightarrow> Inl e
      | Inr (mts', m') \<Rightarrow> scan_loop rest m' mts')"
proof (induction pre arbitrary: m mts rule: length_induct)
  case (1 pre)
  show ?case
  proof (cases pre)
    case Nil
    then show ?thesis by simp
  next
    case (Cons line ls)
    have IH: "\<And>xs m mts. length xs \<le> length ls \<Longrightarrow> \<not> capturing False xs \<Longrightarrow>
        scan_loop (xs @ rest) m mts =
          (case scan_loop xs m mts of Inl e \<Rightarrow> Inl e | Inr (mts', m') \<Rightarrow> scan_loop rest m' mts')"
      using "1.IH" Cons by simp
    show ?thesis
    proof (cases line rule: line_kinds)
      case terminator
      then show ?thesis
        using "1.prems" Cons IH [of ls] by (simp add: scan_loop_terminator headers_def)
    next
      case separator
      then show ?thesis
        using "1.prems" Cons IH [of ls] by (simp add: scan_loop_separator headers_def)
    next
      case header
      then have c: "\<not> capturing True ls"
        using "1.prems" Cons by simp
      then have "\<not> capturing False (after_block ls)"
        by (simp add: capturing_after_block)
      then show ?thesis
        using header Cons c IH [of "after_block ls"]
        by (simp add: scan_loop_header after_block_append multi_line_append
            after_block_length)
    next
      case ignored
      then show ?thesis
        using "1.prems" Cons IH [of ls] by (simp add: scan_loop_ignored)
    next
      case (field k b)
      then have "line \<notin> set headers"
        using headers_plain [of line] by auto
      then show ?thesis
        using field "1.prems" Cons IH [of ls]
        by (auto simp: scan_loop_split split: sum.splits)
    qed
  qed
qed

text \<open>
  A property of entries that the fresh entry has and that every line keeps holds of the
  sealed entries and of the entry in progress.
\<close>

lemma scan_loop_invariant:
  assumes new: "P NewEntry"
    and single: "\<And>line k b m m1. Q line \<Longrightarrow> Cut_sep line = Some (k, b) \<Longrightarrow> P m \<Longrightarrow>
        single_line k (hd (Split b)) m = Inr m1 \<Longrightarrow> P m1"
    and multi: "\<And>line ls m. line \<in> set headers \<Longrightarrow> P m \<Longrightarrow> P (fst (multi_line line ls m))"
  shows "scan_loop ls m mts = Inr (mts', m') \<Longrightarrow> list_all Q ls \<Longrightarrow> P m \<Longrightarrow>
         list_all P mts \<Longrightarrow> list_all P mts' \<and> P m'"
proof (induction ls arbitrary: m mts rule: length_induct)
  case (1 ls0)
  show ?case
  proof (cases ls0)
    case Nil
    then show ?thesis using "1.prems" by simp
  next
    case (Cons line ls)
    have IH: "list_all P mts' \<and> P m'"
      if "length xs \<le> length ls" "scan_loop xs m mts = Inr (mts', m')"
        "list_all Q xs" "P m" "list_all P mts" for xs m mts
    proof -
      have "length xs < length ls0"
        using that(1) Cons by simp
      then show ?thesis
        using "1.IH" that by blast
    qed
    have Q: "Q line" "list_all Q ls"
      using "1.prems"(2) Cons by simp_all
    show ?thesis
    proof (cases line rule: line_kinds)
      case terminator
      then show ?thesis
        using "1.prems" Cons Q new IH [of ls NewEntry "mts @ [m]"]
        by (simp add: scan_loop_terminator)
    next
      case separator
      then show ?thesis
        using "1.prems" Cons Q IH [of ls m mts] by (simp add: scan_loop_separator)
    next
      case header
      have "list_all Q (after_block ls)"
        using Q(2) after_block_subset [of ls] by (auto simp: list_all_iff)
      then show ?thesis
        using header "1.prems" Cons multi [of line m ls]
          IH [of "after_block ls" "fst (multi_line line ls m)" mts]
        by (simp add: scan_loop_header after_block_length)
    next
      case ignored
      then show ?thesis
        using "1.prems" Cons Q IH [of ls m mts] by (simp add: scan_loop_ignored)
    next
      case (field k b)
      show ?thesis
      proof (cases "hd (Split b) = ''COMMENT:''")
        case True
        then show ?thesis
          using field "1.prems" Cons Q IH [of ls m mts] by (simp add: scan_loop_split)
      next
        case False
        then obtain m1 where m1: "single_line k (hd (Split b)) m = Inr m1"
          and run: "scan_loop ls m1 mts = Inr (mts', m')"
          using field "1.prems"(1) Cons
          by (auto simp: scan_loop_split split: sum.splits)
        have "P m1"
          using single [OF Q(1) field "1.prems"(3) m1] .
        then show ?thesis
          using run Q "1.prems" IH [of ls m1 mts] by simp
      qed
    qed
  qed
qed

text \<open>Entries are only ever added behind the ones sealed before, one per terminator.\<close>

lemma scan_loop_sealed:
  "scan_loop ls m mts = Inr (mts', m') \<Longrightarrow>
   \<exists>new. mts' = mts @ new \<and> length new = terminators False ls"
proof (induction ls arbitrary: m mts rule: length_induct)
  case (1 ls0)
  show ?case
  proof (cases ls0)
    case Nil
    then show ?thesis using "1.prems" by simp
  next
    case (Cons line ls)
    have IH: "\<exists>new. mts' = mts @ new \<and> length new = terminators False xs"
      if "length xs \<le> length ls" "scan_loop xs m mts = Inr (mts', m')" for xs m mts
    proof -
      have "length xs < length ls0"
        using that(1) Cons by simp
      then show ?thesis
        using "1.IH" that by blast
    qed
    show ?thesis
    proof (cases line rule: line_kinds)
      case terminator
      then show ?thesis
        using "1.prems" Cons IH [of ls NewEntry "mts @ [m]"]
        by (auto simp: scan_loop_terminator)
    next
      case separator
      then show ?thesis
        using "1.prems" Cons IH [of ls m mts] by (simp add: scan_loop_separator headers_def)
    next
      case header
      then have "line \<noteq> ''--------''"
        by (auto simp: headers_def)
      then show ?thesis
        using header "1.prems" Cons
          IH [of "after_block ls" "fst (multi_line line ls m)" mts]
        by (simp add: scan_loop_header after_block_length terminators_after_block)
    next
      case ignored
      then show ?thesis
        using "1.prems" Cons IH [of ls m mts] by (simp add: scan_loop_ignored)
    next
      case (field k b)
      then have "line \<notin> set headers" "line \<noteq> ''--------''"
        using headers_plain [of line] by auto
      then show ?thesis
        using field "1.prems" Cons IH [of ls _ mts]
        by (auto simp: scan_loop_split split: sum.splits if_splits)
    qed
  qed
qed

lemma scan_loop_sealed_before:
  "scan_loop ls m mts =
     (case scan_loop ls m [] of
        Inl e \<Rightarrow> Inl e
      | Inr (es, m') \<Rightarrow> Inr (mts @ es, m'))"
proof (induction ls arbitrary: m mts rule: length_induct)
  case (1 ls0)
  show ?case
  proof (cases ls0)
    case Nil
    then show ?thesis by simp
  next
    case (Cons line ls)
    have IH: "scan_loop xs m mts =
        (case scan_loop xs m [] of Inl e \<Rightarrow> Inl e | Inr (es, m') \<Rightarrow> Inr (mts @ es, m'))"
      if "length xs \<le> length ls" for xs m mts
    proof -
      have "length xs < length ls0"
        using that Cons by simp
      then show ?thesis
        using "1.IH" by blast
    qed
    show ?thesis
    proof (cases line rule: line_kinds)
      case terminator
      then show ?thesis
        using Cons IH [of ls NewEntry "mts @ [m]"] IH [of ls NewEntry "[m]"]
        by (simp add: scan_loop_terminator split: sum.splits)
    next
      case separator
      then show ?thesis
        using Cons IH [of ls m mts] by (simp add: scan_loop_separator)
    next
      case header
      then show ?thesis
        using Cons IH [of "after_block ls" "fst (multi_line line ls m)" mts]
        by (simp add: scan_loop_header after_block_length)
    next
      case ignored
      then show ?thesis
        using Cons IH [of ls m mts] by (simp add: scan_loop_ignored)
    next
      case (field k b)
      then show ?thesis
        using Cons IH [of ls _ mts]
        by (auto simp: scan_loop_split split: sum.splits)
    qed
  qed
qed

subsection \<open>What single lines and blocks leave unchanged\<close>

lemma single_line_multi_fields:
  "single_line k v m = Inr m1 \<Longrightarrow>
   Body m1 = Body m \<and> ExtendedBody m1 = ExtendedBody m \<and> Excerpt m1 = Excerpt m
   \<and> Keywords m1 = Keywords m \<and> Comment m1 = Comment m"
  by (auto simp: single_line_def Let_def split: if_splits sum.splits)

lemma multi_line_terminated:
  "multi_fields_terminated m \<Longrightarrow> multi_fields_terminated (fst (multi_line line ls m))"
  by (simp add: multi_line_def capture_eq multi_fields_terminated_def
      nl_terminated_append block_text_nl)

lemma scan_loop_terminated:
  assumes "scan_loop ls NewEntry [] = Inr (es, m)"
  shows "list_all multi_fields_terminated es"
proof -
  have "list_all multi_fields_terminated es \<and> multi_fields_terminated m"
  proof (rule scan_loop_invariant [where Q = "\<lambda>l. True", OF _ _ _ assms])
    show "multi_fields_terminated NewEntry"
      by (simp add: multi_fields_terminated_def NewEntry_def nl_terminated_def)
  next
    fix line k b m m1
    assume "multi_fields_terminated m" and "single_line k (hd (Split b)) m = Inr m1"
    then show "multi_fields_terminated m1"
      using single_line_multi_fields [of k "hd (Split b)" m m1]
      by (simp add: multi_fields_terminated_def)
  next
    fix line ls m
    assume "multi_fields_terminated m"
    then show "multi_fields_terminated (fst (multi_line line ls m))"
      by (rule multi_line_terminated)
  next
    show "list_all (\<lambda>l. True) ls"
      by (simp add: list_all_iff)
  next
    show "multi_fields_terminated NewEntry"
      by (simp add: multi_fields_terminated_def NewEntry_def nl_terminated_def)
  next
    show "list_all multi_fields_terminated []"
      by simp
  qed
  then show ?thesis by simp
qed

lemma single_line_allow:
  "single_line k v m = Inr m1 \<Longrightarrow> k \<noteq> ''ALLOW COMMENTS'' \<Longrightarrow> k \<noteq> ''ALLOW PINGS'' \<Longrightarrow>
   AllowComments m1 = AllowComments m \<and> AllowPings m1 = AllowPings m"
  by (auto simp: single_line_def Let_def split: if_splits sum.splits)

lemma multi_line_allow:
  "AllowComments (fst (multi_line line ls m)) = AllowComments m
   \<and> AllowPings (fst (multi_line line ls m)) = AllowPings m"
  by (simp add: multi_line_def capture_eq)

lemma omits_allow_key:
  assumes "omits_allow line" and "Cut_sep line = Some (k, b)"
  shows "k \<noteq> ''ALLOW COMMENTS'' \<and> k \<noteq> ''ALLOW PINGS''"
proof -
  have "line = k @ '': '' @ b"
    using assms(2) by (rule Cut_sep_Some)
  then show ?thesis
    using assms(1) by (auto simp: omits_allow_def starts_with_def)
qed

lemma scan_loop_defaults:
  assumes "scan_loop ls NewEntry [] = Inr (es, m)" and "list_all omits_allow ls"
  shows "list_all has_defaults es \<and> has_defaults m"
proof (rule scan_loop_invariant [where Q = omits_allow, OF _ _ _ assms])
  show "has_defaults NewEntry"
    by (simp add: has_defaults_def NewEntry_def DefaultAllowComments_def DefaultAllowPings_def)
next
  fix line k b m m1
  assume "omits_allow line" and "Cut_sep line = Some (k, b)" and "has_defaults m"
    and "single_line k (hd (Split b)) m = Inr m1"
  then show "has_defaults m1"
    using omits_allow_key [of line k b] single_line_allow [of k "hd (Split b)" m m1]
    by (simp add: has_defaults_def)
next
  fix line ls m
  assume "has_defaults m"
  then show "has_defaults (fst (multi_line line ls m))"
    by (simp add: has_defaults_def multi_line_allow)
next
  show "has_defaults NewEntry"
    by (simp add: has_defaults_def NewEntry_def DefaultAllowComments_def DefaultAllowPings_def)
next
  show "list_all has_defaults []"
    by simp
qed

lemma scan_loop_record_defaults:
  assumes "\<not> capturing False rcd" and "list_all omits_allow rcd"
    and "terminators False rcd = 0"
    and "scan_loop (rcd @ ''--------'' # rest) NewEntry mts = Inr (mts', m')"
  shows "AllowComments (mts' ! length mts) = - 1 \<and> AllowPings (mts' ! length mts) = - 1"
proof -
  have run: "(case scan_loop rcd NewEntry mts of
        Inl e \<Rightarrow> Inl e
      | Inr (mts1, m1) \<Rightarrow> scan_loop rest NewEntry (mts1 @ [m1])) = Inr (mts', m')"
    using assms(1,4)
    by (auto simp: scan_loop_append scan_loop_terminator split: sum.splits)
  then obtain mts1 m1 where r: "scan_loop rcd NewEntry mts = Inr (mts1, m1)"
    and rest: "scan_loop rest NewEntry (mts1 @ [m1]) = Inr (mts', m')"
    by (auto split: sum.splits)
  have "mts1 = mts"
    using scan_loop_sealed [OF r] assms(3) by simp
  obtain new where new: "scan_loop rcd NewEntry [] = Inr (new, m1)"
    using r scan_loop_sealed_before [of rcd NewEntry mts] by (auto split: sum.splits)
  have m1: "has_defaults m1"
    using scan_loop_defaults [OF new assms(2)] by simp
  obtain new' where "mts' = (mts1 @ [m1]) @ new'"
    using scan_loop_sealed [OF rest] by blast
  then have "mts' ! length mts = m1"
    using \<open>mts1 = mts\<close> by (simp add: nth_append)
  then show ?thesis
    using m1 by (simp add: has_defaults_def)
qed

lemma single_line_category:
  "single_line k v m = Inr m1 \<Longrightarrow>
   Category m1 = Category m @ (if k = ''CATEGORY'' then [v] else [])"
  by (auto simp: single_line_def Let_def split: if_splits sum.splits)

lemma scan_loop_categories:
  assumes "\<forall>v \<in> set vs. plain v \<and> v \<noteq> ''COMMENT:''"
  shows "scan_loop (map (\<lambda>v. ''CATEGORY: '' @ v) vs @ rest) m mts =
           scan_loop rest (m\<lparr>Category := Category m @ vs\<rparr>) mts"
  using assms
proof (induction vs arbitrary: m)
  case Nil
  then show ?case by simp
next
  case (Cons v vs)
  have p: "Cut_sep v = None" "v \<noteq> ''COMMENT:''"
    using Cons.prems by (auto simp: plain_Cut_sep)
  have "scan_loop ((''CATEGORY'' @ CHR '':'' # CHR '' '' # v) # map (\<lambda>v. ''CATEGORY: '' @ v) vs @ rest) m mts =
      scan_loop (map (\<lambda>v. ''CATEGORY: '' @ v) vs @ rest) (m\<lparr>Category := Category m @ [v]\<rparr>) mts"
    using scan_loop_key_value [OF plain_keys(8) p] by (simp add: single_line_def)
  then show ?case
    using Cons.IH [of "m\<lparr>Category := Category m @ [v]\<rparr>"] Cons.prems by simp
qed

lemma Cut_sep_category:
  "Cut_sep line = Some (k, b) \<Longrightarrow>
   (k = ''CATEGORY'') = starts_with ''CATEGORY: '' line
   \<and> (k = ''CATEGORY'' \<longrightarrow> b = category_value line)"
proof -
  assume c: "Cut_sep line = Some (k, b)"
  then have l: "line = k @ '': '' @ b"
    by (rule Cut_sep_Some)
  show ?thesis
  proof (cases "starts_with ''CATEGORY: '' line")
    case True
    then have "line = ''CATEGORY'' @ CHR '':'' # CHR '' '' # category_value line"
      by (simp add: starts_with_def category_value_def) (metis append_take_drop_id append_Cons append_Nil)
    then have "Cut_sep line = Some (''CATEGORY'', category_value line)"
      using Cut_sep_append [OF plain_keys(8), of "category_value line"] by simp
    then show ?thesis
      using c True by simp
  next
    case False
    then show ?thesis
      using l by (auto simp: starts_with_def)
  qed
qed

lemma category_after_block:
  "category_values True ls = category_values False (after_block ls)"
  "category_plain True ls \<Longrightarrow> category_plain False (after_block ls)"
  by (induction ls) (auto simp: after_block_def)

lemma not_category_line:
  "line = ''--------'' \<or> line = ''-----'' \<or> line \<in> set headers \<or> Cut_sep line = None
   \<Longrightarrow> \<not> starts_with ''CATEGORY: '' line"
proof
  assume a: "line = ''--------'' \<or> line = ''-----'' \<or> line \<in> set headers \<or> Cut_sep line = None"
    and s: "starts_with ''CATEGORY: '' line"
  from s have "line = ''CATEGORY'' @ CHR '':'' # CHR '' '' # category_value line"
    by (simp add: starts_with_def category_value_def) (metis append_take_drop_id append_Cons append_Nil)
  then have "Cut_sep line = Some (''CATEGORY'', category_value line)"
    using Cut_sep_append [OF plain_keys(8), of "category_value line"] by simp
  then show False
    using a headers_plain [of line] by auto
qed

lemma multi_line_category: "Category (fst (multi_line line ls m)) = Category m"
  by (simp add: multi_line_def capture_eq)

lemma scan_loop_record_categories:
  "scan_loop ls m mts = Inr (mts', m') \<Longrightarrow> category_plain False ls \<Longrightarrow>
   terminators False ls = 0 \<Longrightarrow> Category m' = Category m @ category_values False ls"
proof (induction ls arbitrary: m rule: length_induct)
  case (1 ls0)
  show ?case
  proof (cases ls0)
    case Nil
    then show ?thesis using "1.prems" by simp
  next
    case (Cons line ls)
    have IH: "Category m' = Category m @ category_values False xs"
      if "length xs \<le> length ls" "scan_loop xs m mts = Inr (mts', m')"
        "category_plain False xs" "terminators False xs = 0" for xs m
    proof -
      have "length xs < length ls0"
        using that(1) Cons by simp
      then show ?thesis
        using "1.IH" that by blast
    qed
    show ?thesis
    proof (cases line rule: line_kinds)
      case terminator
      then show ?thesis
        using "1.prems"(3) Cons by simp
    next
      case separator
      then have "\<not> starts_with ''CATEGORY: '' line" "line \<notin> set headers"
        by (simp_all add: starts_with_def headers_def)
      then show ?thesis
        using separator "1.prems" Cons IH [of ls m]
        by (simp add: scan_loop_separator)
    next
      case header
      then have n: "\<not> starts_with ''CATEGORY: '' line" "line \<noteq> ''--------''"
        using not_category_line [of line] by (auto simp: headers_def)
      have "category_plain False (after_block ls)" "terminators False (after_block ls) = 0"
        using header n "1.prems" Cons
        by (simp_all add: category_after_block(2) terminators_after_block)
      then show ?thesis
        using header n "1.prems"(1) Cons
          IH [of "after_block ls" "fst (multi_line line ls m)"]
        by (simp add: scan_loop_header after_block_length multi_line_category
            category_after_block(1))
    next
      case ignored
      then have "\<not> starts_with ''CATEGORY: '' line"
        using not_category_line [of line] by simp
      then show ?thesis
        using ignored "1.prems" Cons IH [of ls m]
        by (simp add: scan_loop_ignored)
    next
      case (field k b)
      then have nh: "line \<notin> set headers" "line \<noteq> ''--------''"
        using headers_plain [of line] by auto
      have rest: "category_plain False ls" "terminators False ls = 0"
        using "1.prems"(2,3) Cons nh by (simp_all split: if_splits)
      show ?thesis
      proof (cases "k = ''CATEGORY''")
        case True
        then have s: "starts_with ''CATEGORY: '' line" and b: "b = category_value line"
          using Cut_sep_category [OF field] by simp_all
        then have "plain b"
          using "1.prems"(2) Cons by simp
        then have hd: "hd (Split b) = b"
          by (simp add: plainD Split_plain)
        show ?thesis
        proof (cases "b = ''COMMENT:''")
          case True
          then show ?thesis
            using field hd s b rest "1.prems"(1) Cons IH [of ls m]
            by (simp add: scan_loop_split)
        next
          case False
          then have "scan_loop ls (m\<lparr>Category := Category m @ [b]\<rparr>) mts = Inr (mts', m')"
            using field hd \<open>k = ''CATEGORY''\<close> "1.prems"(1) Cons
            by (simp add: scan_loop_split single_line_def)
          then show ?thesis
            using False s b rest Cons IH [of ls "m\<lparr>Category := Category m @ [b]\<rparr>"]
            by simp
        qed
      next
        case False
        then have s: "\<not> starts_with ''CATEGORY: '' line"
          using Cut_sep_category [OF field] by simp
        show ?thesis
        proof (cases "hd (Split b) = ''COMMENT:''")
          case True
          then show ?thesis
            using field s nh rest "1.prems"(1) Cons IH [of ls m]
            by (simp add: scan_loop_split)
        next
          case c: False
          then obtain m1 where m1: "single_line k (hd (Split b)) m = Inr m1"
            and run: "scan_loop ls m1 mts = Inr (mts', m')"
            using field "1.prems"(1) Cons
            by (auto simp: scan_loop_split split: sum.splits)
          have "Category m1 = Category m"
            using single_line_category [OF m1] False by simp
          then show ?thesis
            using s nh rest run Cons IH [of ls m1] by simp
        qed
      qed
    qed
  qed
qed

lemma scan_loop_sealed_categories:
  assumes "\<not> capturing False rcd" and "category_plain False rcd"
    and "terminators False rcd = 0"
    and "scan_loop (rcd @ ''--------'' # rest) NewEntry before = Inr (sealed, cur)"
  shows "Category (sealed ! length before) = category_values False rcd"
proof -
  have "(case scan_loop rcd NewEntry before of
        Inl e \<Rightarrow> Inl e
      | Inr (mts, m) \<Rightarrow> scan_loop rest NewEntry (mts @ [m])) = Inr (sealed, cur)"
    using assms(1,4)
    by (auto simp: scan_loop_append scan_loop_terminator split: sum.splits)
  then obtain mts m where r: "scan_loop rcd NewEntry before = Inr (mts, m)"
    and rest: "scan_loop rest NewEntry (mts @ [m]) = Inr (sealed, cur)"
    by (auto split: sum.splits)
  have "mts = before"
    using scan_loop_sealed [OF r] assms(3) by simp
  have "Category m = Category NewEntry @ category_values False rcd"
    using r assms(2,3) by (rule scan_loop_record_categories)
  then have m: "Category m = category_values False rcd"
    by (simp add: NewEntry_def)
  obtain more_sealed where "sealed = (mts @ [m]) @ more_sealed"
    using scan_loop_sealed [OF rest] by blast
  then have "sealed ! length before = m"
    using \<open>mts = before\<close> by (simp add: nth_append)
  then show ?thesis
    using m by simp
qed

lemma category_values_flat:
  "\<forall>l \<in> set ls. l \<notin> set headers \<Longrightarrow>
   category_values False ls =
     map category_value
       (filter (\<lambda>l. starts_with ''CATEGORY: '' l \<and> category_value l \<noteq> ''COMMENT:'') ls)"
  by (induction ls) auto

subsection \<open>The dates of the specification\<close>

lemma date_examples:
  "time_Parse layout12 ''04/22/2017 08:41:58 PM'' =
     Inr \<lparr>Year = 2017, Month = 4, Day = 22, Hour = 20, Minute = 41, Second = 58,
          Nanosecond = 0\<rparr>"
  "time_Parse layout24 ''04/22/2017 20:41:58'' =
     Inr \<lparr>Year = 2017, Month = 4, Day = 22, Hour = 20, Minute = 41, Second = 58,
          Nanosecond = 0\<rparr>"
  "time_Parse layout24 ''2023-01-02 15:30:45'' = Inl (TimeParseError (OutOfRange ''month''))"
  "HasSuffix ''04/22/2017 08:41:58 PM'' ''PM''"
  "\<not> HasSuffix ''04/22/2017 20:41:58'' ''AM''"
  "\<not> HasSuffix ''04/22/2017 20:41:58'' ''PM''"
  "\<not> HasSuffix ''2023-01-02 15:30:45'' ''AM''"
  "\<not> HasSuffix ''2023-01-02 15:30:45'' ''PM''"
  "Cut_sep ''04/22/2017 08:41:58 PM'' = None"
  "Cut_sep ''04/22/2017 20:41:58'' = None"
  "Cut_sep ''2023-01-02 15:30:45'' = None"
  by code_simp+

lemma digit_val_digit: "k < 10 \<Longrightarrow> digit_val (digit k) = Some k"
proof -
  assume "k < 10"
  then have "k = 0 \<or> k = 1 \<or> k = 2 \<or> k = 3 \<or> k = 4 \<or> k = 5 \<or> k = 6 \<or> k = 7 \<or> k = 8 \<or> k = 9"
    by arith
  then show ?thesis
    by (elim disjE) (simp_all add: digit_val_def digit_def)
qed

lemma digit_not_sep: "k < 10 \<Longrightarrow> digit k \<noteq> CHR '' '' \<and> digit k \<noteq> CHR '':''"
proof -
  assume "k < 10"
  then have "k = 0 \<or> k = 1 \<or> k = 2 \<or> k = 3 \<or> k = 4 \<or> k = 5 \<or> k = 6 \<or> k = 7 \<or> k = 8 \<or> k = 9"
    by arith
  then show ?thesis
    by (elim disjE) (simp_all add: digit_def)
qed

lemma getnum_two: "n < 100 \<Longrightarrow> getnum (two n @ r) fixed = Some (int n, r)"
proof -
  assume n: "n < 100"
  then have "n div 10 < 10" "n mod 10 < 10" by simp_all
  then have "digit_val (digit (n div 10)) = Some (n div 10)"
    "digit_val (digit (n mod 10)) = Some (n mod 10)"
    by (simp_all add: digit_val_digit)
  moreover have "int (n div 10) * 10 + int (n mod 10) = int n"
    by (metis div_mult_mod_eq of_nat_add of_nat_mult of_nat_numeral)
  ultimately show ?thesis
    by (simp add: getnum_def two_def)
qed

lemma four_year:
  assumes "y < 10000"
  shows "list_all isDigit (four y)" and "decimal 0 (four y) = y"
proof -
  have d: "y div 1000 < 10" "y div 100 mod 10 < 10" "y div 10 mod 10 < 10" "y mod 10 < 10"
    using assms by simp_all
  then have v: "digit_val (digit (y div 1000)) = Some (y div 1000)"
    "digit_val (digit (y div 100 mod 10)) = Some (y div 100 mod 10)"
    "digit_val (digit (y div 10 mod 10)) = Some (y div 10 mod 10)"
    "digit_val (digit (y mod 10)) = Some (y mod 10)"
    by (simp_all add: digit_val_digit)
  then show "list_all isDigit (four y)"
    by (simp add: four_def isDigit_def)
  have a: "y div 100 = y div 10 div 10" by (simp add: div_mult2_eq)
  have b: "y div 1000 = y div 10 div 10 div 10" by (simp add: div_mult2_eq)
  have "((y div 1000 * 10 + y div 100 mod 10) * 10 + y div 10 mod 10) * 10 + y mod 10 = y"
    unfolding a b by (metis (no_types) div_mult_mod_eq)
  then show "decimal 0 (four y) = y"
    using v by (simp add: four_def)
qed

lemma four_length [simp]: "length (four y) = 4"
  by (simp add: four_def)

lemma four_hd: "y < 10000 \<Longrightarrow> isDigit (hd (four y @ r))"
proof -
  assume "y < 10000"
  then have "y div 1000 < 10" by simp
  then show ?thesis
    by (simp add: four_def isDigit_def digit_val_digit)
qed

lemma daysIn_le: "daysIn m y \<le> 31"
  by (simp add: daysIn_def)

lemma cutspace_two: "n < 100 \<Longrightarrow> cutspace (CHR '' '' # two n @ r) = two n @ r"
proof -
  assume "n < 100"
  then have "n div 10 < 10" by simp
  then show ?thesis
    using digit_not_sep [of "n div 10"] by (simp add: two_def cutspace_def)
qed

lemma cutspace_Nil [simp]: "cutspace [] = []"
  by (simp add: cutspace_def)

lemma time_Parse_24:
  assumes "1 \<le> mo" "mo \<le> 12" "1 \<le> d" "int d \<le> daysIn (int mo) (int y)" "y < 10000"
    "h < 24" "mi < 60" "s < 60"
  shows "time_Parse layout24
           (two mo @ ''/'' @ two d @ ''/'' @ four y @ '' '' @ two h @ '':'' @ two mi @ '':'' @ two s)
         = Inr \<lparr>Year = int y, Month = int mo, Day = int d, Hour = int h, Minute = int mi,
                Second = int s, Nanosecond = 0\<rparr>"
proof -
  have d: "d < 100"
    using assms(4) daysIn_le [of "int mo" "int y"] by linarith
  have b: "mo < 100" "h < 100" "mi < 100" "s < 100"
    using assms by simp_all
  have g: "\<And>r. getnum (two s @ r) True = Some (int s, r)"
    using b(4) by (rule getnum_two)
  have gs: "getnum (two s) True = Some (int s, [])"
    using g [of "[]"] by simp
  show ?thesis
    using assms d b gs
    by (simp add: time_Parse_def layout24_def parse_std_def getnum_two four_year four_hd
        cutspace_two init_fields_def)
qed

lemma time_Parse_12:
  assumes "1 \<le> mo" "mo \<le> 12" "1 \<le> d" "int d \<le> daysIn (int mo) (int y)" "y < 10000"
    "h \<le> 12" "mi < 60" "s < 60"
  shows "time_Parse layout12
           (two mo @ ''/'' @ two d @ ''/'' @ four y @ '' '' @ two h @ '':'' @ two mi @ '':'' @ two s
              @ (if pm then '' PM'' else '' AM''))
         = Inr \<lparr>Year = int y, Month = int mo, Day = int d,
                Hour = (if pm then (if h < 12 then int h + 12 else int h)
                        else (if h = 12 then 0 else int h)),
                Minute = int mi, Second = int s, Nanosecond = 0\<rparr>"
proof -
  have d: "d < 100"
    using assms(4) daysIn_le [of "int mo" "int y"] by linarith
  have b: "mo < 100" "h < 100" "mi < 100" "s < 100"
    using assms by simp_all
  show ?thesis
    using assms d b
    by (simp add: time_Parse_def layout12_def parse_std_def getnum_two four_year four_hd
        cutspace_two init_fields_def commaOrPeriod_def cutspace_def [of "CHR '' '' # CHR ''P'' # _"]
        cutspace_def [of "CHR '' '' # CHR ''A'' # _"])
qed

lemma digit_not_letter:
  "k < 10 \<Longrightarrow> digit k \<noteq> CHR ''M''"
proof -
  assume "k < 10"
  then have "k = 0 \<or> k = 1 \<or> k = 2 \<or> k = 3 \<or> k = 4 \<or> k = 5 \<or> k = 6 \<or> k = 7 \<or> k = 8 \<or> k = 9"
    by arith
  then show ?thesis
    by (elim disjE) (simp_all add: digit_def)
qed

lemma date24_suffix:
  "\<not> HasSuffix (date24 mo d y h mi s) ''AM'' \<and> \<not> HasSuffix (date24 mo d y h mi s) ''PM''"
  using digit_not_letter [of "s mod 10"]
  by (simp add: HasSuffix_def date24_def two_def four_def)

lemma date12_suffix:
  "HasSuffix (date12 mo d y h mi s pm) ''AM'' \<or> HasSuffix (date12 mo d y h mi s pm) ''PM''"
  by (simp add: HasSuffix_def date12_def date24_def two_def four_def)

lemma date24_plain:
  assumes "mo < 100" "d < 100" "y < 10000" "h < 100" "mi < 100" "s < 100"
  shows "Cut_sep (date24 mo d y h mi s) = None"
proof -
  have "mo div 10 < 10" "d div 10 < 10" "h div 10 < 10" "mi div 10 < 10" "s div 10 < 10"
    "y div 1000 < 10"
    using assms by simp_all
  then show ?thesis
    using digit_not_sep [of "mo div 10"] digit_not_sep [of "mo mod 10"]
      digit_not_sep [of "d div 10"] digit_not_sep [of "d mod 10"]
      digit_not_sep [of "h div 10"] digit_not_sep [of "h mod 10"]
      digit_not_sep [of "mi div 10"] digit_not_sep [of "mi mod 10"]
      digit_not_sep [of "s div 10"] digit_not_sep [of "s mod 10"]
      digit_not_sep [of "y div 1000"] digit_not_sep [of "y div 100 mod 10"]
      digit_not_sep [of "y div 10 mod 10"] digit_not_sep [of "y mod 10"]
    by (simp add: date24_def two_def four_def)
qed

lemma date12_plain:
  assumes "mo < 100" "d < 100" "y < 10000" "h < 100" "mi < 100" "s < 100"
  shows "Cut_sep (date12 mo d y h mi s pm) = None"
proof -
  have "mo div 10 < 10" "d div 10 < 10" "h div 10 < 10" "mi div 10 < 10" "s div 10 < 10"
    "y div 1000 < 10"
    using assms by simp_all
  then show ?thesis
    using digit_not_sep [of "mo div 10"] digit_not_sep [of "mo mod 10"]
      digit_not_sep [of "d div 10"] digit_not_sep [of "d mod 10"]
      digit_not_sep [of "h div 10"] digit_not_sep [of "h mod 10"]
      digit_not_sep [of "mi div 10"] digit_not_sep [of "mi mod 10"]
      digit_not_sep [of "s div 10"] digit_not_sep [of "s mod 10"]
      digit_not_sep [of "y div 1000"] digit_not_sep [of "y div 100 mod 10"]
      digit_not_sep [of "y div 10 mod 10"] digit_not_sep [of "y mod 10"]
    by (simp add: date12_def date24_def two_def four_def)
qed

lemma date_not_comment:
  "date24 mo d y h mi s \<noteq> ''COMMENT:''" "date12 mo d y h mi s pm \<noteq> ''COMMENT:''"
  by (simp_all add: date12_def date24_def two_def four_def)

lemma scan_loop_date24:
  assumes "valid_date mo d y" "h < 24" "mi < 60" "s < 60"
  shows "scan_loop ((''DATE: '' @ date24 mo d y h mi s) # rest) m mts =
           scan_loop rest
             (m\<lparr>Date := \<lparr>Year = int y, Month = int mo, Day = int d, Hour = int h,
                          Minute = int mi, Second = int s, Nanosecond = 0\<rparr>\<rparr>) mts"
proof -
  have v: "1 \<le> mo" "mo \<le> 12" "1 \<le> d" "int d \<le> daysIn (int mo) (int y)" "y < 10000"
    using assms(1) by (simp_all add: valid_date_def)
  have d: "d < 100"
    using v(4) daysIn_le [of "int mo" "int y"] by linarith
  have p: "Cut_sep (date24 mo d y h mi s) = None"
    using v d assms by (intro date24_plain) simp_all
  have t: "time_Parse layout24 (date24 mo d y h mi s) =
      Inr \<lparr>Year = int y, Month = int mo, Day = int d, Hour = int h, Minute = int mi,
           Second = int s, Nanosecond = 0\<rparr>"
    unfolding date24_def using v assms(2-4) by (rule time_Parse_24)
  have "scan_loop ((''DATE'' @ CHR '':'' # CHR '' '' # date24 mo d y h mi s) # rest) m mts =
      (case single_line ''DATE'' (date24 mo d y h mi s) m of
         Inl e \<Rightarrow> Inl e
       | Inr m' \<Rightarrow> scan_loop rest m' mts)"
    by (rule scan_loop_key_value [OF plain_keys(9) p date_not_comment(1)])
  then show ?thesis
    using t date24_suffix [of mo d y h mi s] by (simp add: single_line_def)
qed

lemma scan_loop_date12:
  assumes "valid_date mo d y" "h \<le> 12" "mi < 60" "s < 60"
  shows "scan_loop ((''DATE: '' @ date12 mo d y h mi s pm) # rest) m mts =
           scan_loop rest
             (m\<lparr>Date := \<lparr>Year = int y, Month = int mo, Day = int d,
                          Hour = int (h mod 12) + (if pm then 12 else 0),
                          Minute = int mi, Second = int s, Nanosecond = 0\<rparr>\<rparr>) mts"
proof -
  have v: "1 \<le> mo" "mo \<le> 12" "1 \<le> d" "int d \<le> daysIn (int mo) (int y)" "y < 10000"
    using assms(1) by (simp_all add: valid_date_def)
  have d: "d < 100"
    using v(4) daysIn_le [of "int mo" "int y"] by linarith
  have p: "Cut_sep (date12 mo d y h mi s pm) = None"
    using v d assms by (intro date12_plain) simp_all
  have "time_Parse layout12 (date12 mo d y h mi s pm) =
      Inr \<lparr>Year = int y, Month = int mo, Day = int d,
           Hour = (if pm then (if h < 12 then int h + 12 else int h)
                   else (if h = 12 then 0 else int h)),
           Minute = int mi, Second = int s, Nanosecond = 0\<rparr>"
    unfolding date12_def date24_def append_assoc using v assms(2-4) by (rule time_Parse_12)
  moreover have "(if pm then (if h < 12 then int h + 12 else int h)
                   else (if h = 12 then 0 else int h)) = int (h mod 12) + (if pm then 12 else 0)"
    using assms(2) by (cases "h = 12") auto
  ultimately have t: "time_Parse layout12 (date12 mo d y h mi s pm) =
      Inr \<lparr>Year = int y, Month = int mo, Day = int d,
           Hour = int (h mod 12) + (if pm then 12 else 0),
           Minute = int mi, Second = int s, Nanosecond = 0\<rparr>"
    by simp
  have "scan_loop ((''DATE'' @ CHR '':'' # CHR '' '' # date12 mo d y h mi s pm) # rest) m mts =
      (case single_line ''DATE'' (date12 mo d y h mi s pm) m of
         Inl e \<Rightarrow> Inl e
       | Inr m' \<Rightarrow> scan_loop rest m' mts)"
    by (rule scan_loop_key_value [OF plain_keys(9) p date_not_comment(2)])
  then show ?thesis
    using t date12_suffix [of mo d y h mi s pm] by (simp add: single_line_def)
qed

section \<open>The claims\<close>

subsection \<open>C1: range check of ALLOW PINGS\<close>

text \<open>
  Claim C1 at its failing input. The range check after \<open>ALLOW PINGS\<close> tests
  \<open>m.AllowComments\<close>: after \<open>ALLOW COMMENTS: 1\<close> the line \<open>ALLOW PINGS: 5\<close> is
  accepted and the entry is returned with \<open>AllowPings = 5\<close>; and in a record without an
  \<open>ALLOW COMMENTS\<close> line the valid line \<open>ALLOW PINGS: 1\<close> aborts the parse.
\<close>

theorem C1_allow_pings_unchecked:
  "Parse \<lparr>pending = [''ALLOW COMMENTS: 1'', ''ALLOW PINGS: 5'', ''--------''], scan_err = None\<rparr>
     = ([NewEntry\<lparr>AllowComments := 1, AllowPings := 5\<rparr>], None)
   \<and> Parse \<lparr>pending = [''ALLOW PINGS: 1'', ''--------''], scan_err = None\<rparr>
     = ([], Some (Errorf ''ALLOW PINGS column is allowed only 0 or 1. Got 1''))"
  by code_simp

subsection \<open>C2: single-line string fields\<close>

text \<open>
  Claim C2, as amended. In a line that contains the separator colon-space, the key is
  everything before the first separator, and the value is everything after it if that
  remainder contains no further separator. A line \<open>K: v\<close> read outside a multi-line
  block, with \<open>K\<close> one of TITLE, AUTHOR, BASENAME, CONVERT BREAKS, PRIMARY CATEGORY,
  IMAGE, where \<open>v\<close> does not itself contain the separator and is not the text
  \<open>COMMENT:\<close>, makes the loop go on with \<open>v\<close> stored in the corresponding field
  (whatever the field held before) and every other field unchanged.
\<close>

theorem C2_single_line_assign:
  "(plain k
      \<longrightarrow> Split (k @ '': '' @ b) ! 0 = k \<and> 1 < length (Split (k @ '': '' @ b))
          \<and> (plain b \<longrightarrow> Split (k @ '': '' @ b) = [k, b]))
   \<and> (plain v \<and> v \<noteq> ''COMMENT:''
      \<longrightarrow> scan_loop ((''TITLE: '' @ v) # rest) m mts = scan_loop rest (m\<lparr>Title := v\<rparr>) mts
        \<and> scan_loop ((''AUTHOR: '' @ v) # rest) m mts = scan_loop rest (m\<lparr>Author := v\<rparr>) mts
        \<and> scan_loop ((''BASENAME: '' @ v) # rest) m mts =
            scan_loop rest (m\<lparr>Basename := v\<rparr>) mts
        \<and> scan_loop ((''CONVERT BREAKS: '' @ v) # rest) m mts =
            scan_loop rest (m\<lparr>ConvertBreaks := v\<rparr>) mts
        \<and> scan_loop ((''PRIMARY CATEGORY: '' @ v) # rest) m mts =
            scan_loop rest (m\<lparr>PrimaryCategory := v\<rparr>) mts
        \<and> scan_loop ((''IMAGE: '' @ v) # rest) m mts = scan_loop rest (m\<lparr>Image := v\<rparr>) mts)"
proof -
  have key: "Split (k @ '': '' @ b) ! 0 = k \<and> 1 < length (Split (k @ '': '' @ b))
      \<and> (plain b \<longrightarrow> Split (k @ '': '' @ b) = [k, b])"
    if "plain k"
  proof -
    have "Split (k @ '': '' @ b) = k # Split b"
      using Split_append [OF plainD [OF that], of b] by simp
    then show ?thesis
      using Split_not_Nil [of b] by (auto simp: plainD Split_plain)
  qed
  have fields: "scan_loop ((''TITLE: '' @ v) # rest) m mts = scan_loop rest (m\<lparr>Title := v\<rparr>) mts
        \<and> scan_loop ((''AUTHOR: '' @ v) # rest) m mts = scan_loop rest (m\<lparr>Author := v\<rparr>) mts
        \<and> scan_loop ((''BASENAME: '' @ v) # rest) m mts =
            scan_loop rest (m\<lparr>Basename := v\<rparr>) mts
        \<and> scan_loop ((''CONVERT BREAKS: '' @ v) # rest) m mts =
            scan_loop rest (m\<lparr>ConvertBreaks := v\<rparr>) mts
        \<and> scan_loop ((''PRIMARY CATEGORY: '' @ v) # rest) m mts =
            scan_loop rest (m\<lparr>PrimaryCategory := v\<rparr>) mts
        \<and> scan_loop ((''IMAGE: '' @ v) # rest) m mts = scan_loop rest (m\<lparr>Image := v\<rparr>) mts"
    if a: "plain v \<and> v \<noteq> ''COMMENT:''"
  proof -
    have v: "Cut_sep v = None"
      using a by (simp add: plainD)
    have kv: "\<And>k. Cut_sep k = None \<Longrightarrow>
        scan_loop ((k @ CHR '':'' # CHR '' '' # v) # rest) m mts =
          (case single_line k v m of Inl e \<Rightarrow> Inl e | Inr m' \<Rightarrow> scan_loop rest m' mts)"
      using v a by (intro scan_loop_key_value) simp_all
    show ?thesis
      using kv [of "''TITLE''"] kv [of "''AUTHOR''"] kv [of "''BASENAME''"]
        kv [of "''CONVERT BREAKS''"] kv [of "''PRIMARY CATEGORY''"] kv [of "''IMAGE''"]
      by (simp add: single_line_def)
  qed
  show ?thesis
    using key fields by blast
qed

text \<open>
  The theorem at the line \<open>TITLE: hello\<close>, over an entry whose title was \<open>old\<close>, and
  at the line \<open>X-KEY: some value\<close>.
\<close>

theorem C2_single_line_assign_witness:
  "scan_loop [''TITLE: hello''] (NewEntry\<lparr>Title := ''old''\<rparr>) [] =
     Inr ([], NewEntry\<lparr>Title := ''hello''\<rparr>)
   \<and> Split ''X-KEY: some value'' = [''X-KEY'', ''some value'']"
proof -
  have h: "plain ''hello'' \<and> ''hello'' \<noteq> ''COMMENT:''"
    by (simp add: plain_Cut_sep)
  have k: "plain ''X-KEY''" "plain ''some value''"
    by (simp_all add: plain_Cut_sep)
  have "scan_loop ((''TITLE: '' @ ''hello'') # []) (NewEntry\<lparr>Title := ''old''\<rparr>) [] =
      scan_loop [] (NewEntry\<lparr>Title := ''old''\<rparr>\<lparr>Title := ''hello''\<rparr>) []"
    using h C2_single_line_assign [where v = "''hello''" and rest = "[]"
        and m = "NewEntry\<lparr>Title := ''old''\<rparr>" and mts = "[]"]
    by blast
  moreover have "Split (''X-KEY'' @ '': '' @ ''some value'') = [''X-KEY'', ''some value'']"
    using k C2_single_line_assign [where k = "''X-KEY''" and b = "''some value''"]
    by blast
  ultimately show ?thesis
    by simp
qed

text \<open>
  Claim C2 as stated fails: the line \<open>TITLE: COMMENT:\<close> is skipped by the guard
  \<open>value != "COMMENT:"\<close> and leaves the title empty, and the line \<open>TITLE: a: b\<close>
  stores only \<open>a\<close>, since \<open>strings.Split\<close> cuts at every separator.
\<close>

theorem C2_counterexample:
  "map Title (fst (Parse \<lparr>pending = [''TITLE: COMMENT:'', ''--------''], scan_err = None\<rparr>))
     = [[]]
   \<and> map Title (fst (Parse \<lparr>pending = [''TITLE: a: b'', ''--------''], scan_err = None\<rparr>))
     = [''a'']"
  by code_simp

subsection \<open>C3: errors of the stream\<close>

text \<open>
  Claim C3 at its failing input. The scanner yields two lines and then stops with a read
  error; \<open>Parse\<close> never calls \<open>scanner.Err()\<close> and returns the entry sealed so far
  with a nil error.
\<close>

theorem C3_scanner_error_dropped:
  "Parse \<lparr>pending = [''TITLE: x'', ''--------''],
          scan_err = Some (ReadError ''connection reset'')\<rparr>
     = ([NewEntry\<lparr>Title := ''x''\<rparr>], None)"
  by code_simp

subsection \<open>C4: the two formats of DATE\<close>

text \<open>
  Claim C4, as amended. For a line \<open>DATE: v\<close> read outside a multi-line block, where
  \<open>v\<close> does not contain the separator colon-space and is not the text \<open>COMMENT:\<close>: the
  value is parsed by \<open>time.Parse\<close> with the 12-hour layout \<open>01/02/2006 03:04:05 PM\<close> if
  it ends in \<open>AM\<close> or \<open>PM\<close> and with the 24-hour layout \<open>01/02/2006 15:04:05\<close>
  otherwise; the time is stored, or the parse aborts with an error that wraps the error
  of \<open>time.Parse\<close>. Every valid date written \<open>month/day/year hour:minute:second\<close> is
  stored as that date; written with an hour up to 12 and \<open>AM\<close> or \<open>PM\<close>, it is stored
  with the hour of the 24-hour clock. The lines \<open>DATE: 04/22/2017 08:41:58 PM\<close> and
  \<open>DATE: 04/22/2017 20:41:58\<close> both store 2017-04-22 20:41:58, and the line
  \<open>DATE: 2023-01-02 15:30:45\<close> aborts the parse: the 24-hour layout reads \<open>20\<close> as the
  month.
\<close>

theorem C4_date_formats:
  "(plain v \<and> v \<noteq> ''COMMENT:''
      \<longrightarrow> scan_loop ((''DATE: '' @ v) # rest) m mts =
            (case time_Parse (if HasSuffix v ''AM'' \<or> HasSuffix v ''PM''
                              then layout12 else layout24) v of
               Inl e \<Rightarrow> Inl (ErrorfW ''Parsing error on DATE column: '' e)
             | Inr t \<Rightarrow> scan_loop rest (m\<lparr>Date := t\<rparr>) mts))
   \<and> (valid_date mo d y \<and> h < 24 \<and> mi < 60 \<and> s < 60
      \<longrightarrow> scan_loop ((''DATE: '' @ date24 mo d y h mi s) # rest) m mts =
            scan_loop rest
              (m\<lparr>Date := \<lparr>Year = int y, Month = int mo, Day = int d, Hour = int h,
                           Minute = int mi, Second = int s, Nanosecond = 0\<rparr>\<rparr>) mts)
   \<and> (valid_date mo d y \<and> h' \<le> 12 \<and> mi < 60 \<and> s < 60
      \<longrightarrow> scan_loop ((''DATE: '' @ date12 mo d y h' mi s pm) # rest) m mts =
            scan_loop rest
              (m\<lparr>Date := \<lparr>Year = int y, Month = int mo, Day = int d,
                           Hour = int (h' mod 12) + (if pm then 12 else 0),
                           Minute = int mi, Second = int s, Nanosecond = 0\<rparr>\<rparr>) mts)
   \<and> scan_loop (''DATE: 04/22/2017 08:41:58 PM'' # rest) m mts =
       scan_loop rest
         (m\<lparr>Date := \<lparr>Year = 2017, Month = 4, Day = 22, Hour = 20, Minute = 41, Second = 58,
                      Nanosecond = 0\<rparr>\<rparr>) mts
   \<and> scan_loop (''DATE: 04/22/2017 20:41:58'' # rest) m mts =
       scan_loop rest
         (m\<lparr>Date := \<lparr>Year = 2017, Month = 4, Day = 22, Hour = 20, Minute = 41, Second = 58,
                      Nanosecond = 0\<rparr>\<rparr>) mts
   \<and> scan_loop (''DATE: 2023-01-02 15:30:45'' # rest) m mts =
       Inl (ErrorfW ''Parsing error on DATE column: '' (TimeParseError (OutOfRange ''month'')))
   \<and> Parse \<lparr>pending = ''DATE: 2023-01-02 15:30:45'' # rest, scan_err = x\<rparr> =
       ([], Some (ErrorfW ''Parsing error on DATE column: ''
                    (TimeParseError (OutOfRange ''month''))))"
proof -
  have kv: "\<And>v m mts. Cut_sep v = None \<Longrightarrow> v \<noteq> ''COMMENT:'' \<Longrightarrow>
      scan_loop ((''DATE'' @ CHR '':'' # CHR '' '' # v) # rest) m mts =
        (case single_line ''DATE'' v m of Inl e \<Rightarrow> Inl e | Inr m' \<Rightarrow> scan_loop rest m' mts)"
    by (rule scan_loop_key_value [OF plain_keys(9)])
  have sel: "single_line ''DATE'' w m =
     (case time_Parse (if HasSuffix w ''AM'' \<or> HasSuffix w ''PM''
                       then layout12 else layout24) w of
        Inl e \<Rightarrow> Inl (ErrorfW ''Parsing error on DATE column: '' e)
      | Inr t \<Rightarrow> Inr (m\<lparr>Date := t\<rparr>))" for w m
    by (simp add: single_line_def)
  have gen: "scan_loop ((''DATE: '' @ v) # rest) m mts =
           (case time_Parse (if HasSuffix v ''AM'' \<or> HasSuffix v ''PM''
                             then layout12 else layout24) v of
              Inl e \<Rightarrow> Inl (ErrorfW ''Parsing error on DATE column: '' e)
            | Inr t \<Rightarrow> scan_loop rest (m\<lparr>Date := t\<rparr>) mts)"
    if "plain v \<and> v \<noteq> ''COMMENT:''"
    using that kv [of v m mts] by (simp add: sel plainD split: sum.splits)
  have a: "scan_loop (''DATE: 04/22/2017 08:41:58 PM'' # rest) m mts =
       scan_loop rest
         (m\<lparr>Date := \<lparr>Year = 2017, Month = 4, Day = 22, Hour = 20, Minute = 41, Second = 58,
                      Nanosecond = 0\<rparr>\<rparr>) mts"
    using kv [of "''04/22/2017 08:41:58 PM''" m mts]
    by (simp add: sel date_examples)
  have b: "scan_loop (''DATE: 04/22/2017 20:41:58'' # rest) m mts =
       scan_loop rest
         (m\<lparr>Date := \<lparr>Year = 2017, Month = 4, Day = 22, Hour = 20, Minute = 41, Second = 58,
                      Nanosecond = 0\<rparr>\<rparr>) mts"
    using kv [of "''04/22/2017 20:41:58''" m mts]
    by (simp add: sel date_examples)
  have c: "scan_loop (''DATE: 2023-01-02 15:30:45'' # rest) m mts =
       Inl (ErrorfW ''Parsing error on DATE column: '' (TimeParseError (OutOfRange ''month'')))"
    for m mts
    using kv [of "''2023-01-02 15:30:45''" m mts]
    by (simp add: sel date_examples)
  have c': "Parse \<lparr>pending = ''DATE: 2023-01-02 15:30:45'' # rest, scan_err = x\<rparr> =
       ([], Some (ErrorfW ''Parsing error on DATE column: ''
                    (TimeParseError (OutOfRange ''month''))))"
    using c [of NewEntry "[]"] by (simp add: Parse_def)
  show ?thesis
    using gen a b c [of m mts] c' scan_loop_date24 [of mo d y h mi s rest m mts]
      scan_loop_date12 [of mo d y h' mi s pm rest m mts]
    by blast
qed

text \<open>
  The theorem at the dates \<open>04/09/2017 07:49:39 PM\<close> and \<open>01/02/2023 15:30:45\<close>, and at
  the 30th of February.
\<close>

theorem C4_date_formats_witness:
  "map Date
     (fst (Parse \<lparr>pending = [''DATE: 04/09/2017 07:49:39 PM'', ''--------''], scan_err = None\<rparr>))
     = [\<lparr>Year = 2017, Month = 4, Day = 9, Hour = 19, Minute = 49, Second = 39, Nanosecond = 0\<rparr>]
   \<and> map Date
     (fst (Parse \<lparr>pending = [''DATE: 01/02/2023 15:30:45'', ''--------''], scan_err = None\<rparr>))
     = [\<lparr>Year = 2023, Month = 1, Day = 2, Hour = 15, Minute = 30, Second = 45, Nanosecond = 0\<rparr>]
   \<and> Parse \<lparr>pending = [''DATE: 02/30/2023 15:30:45''], scan_err = None\<rparr>
     = ([], Some (ErrorfW ''Parsing error on DATE column: ''
                    (TimeParseError (OutOfRange ''day''))))"
proof -
  have v1: "valid_date 4 9 2017 \<and> (7::nat) \<le> 12 \<and> (49::nat) < 60 \<and> (39::nat) < 60"
    by (simp add: valid_date_def daysIn_def)
  have v2: "valid_date 1 2 2023 \<and> (15::nat) < 24 \<and> (30::nat) < 60 \<and> (45::nat) < 60"
    by (simp add: valid_date_def daysIn_def)
  have f: "date12 4 9 2017 7 49 39 True = ''04/09/2017 07:49:39 PM''"
    "date24 1 2 2023 15 30 45 = ''01/02/2023 15:30:45''"
    by (simp_all add: date12_def date24_def two_def four_def digit_def)
  have h: "plain ''02/30/2023 15:30:45'' \<and> ''02/30/2023 15:30:45'' \<noteq> ''COMMENT:''"
    by (simp add: plain_Cut_sep)
  have t: "time_Parse layout24 ''02/30/2023 15:30:45'' = Inl (TimeParseError (OutOfRange ''day''))"
    "\<not> HasSuffix ''02/30/2023 15:30:45'' ''AM''" "\<not> HasSuffix ''02/30/2023 15:30:45'' ''PM''"
    by code_simp+
  have a: "scan_loop ((''DATE: '' @ date12 4 9 2017 7 49 39 True) # [''--------'']) NewEntry [] =
      scan_loop [''--------'']
        (NewEntry\<lparr>Date := \<lparr>Year = int 2017, Month = int 4, Day = int 9,
           Hour = int (7 mod 12) + (if True then 12 else 0), Minute = int 49, Second = int 39,
           Nanosecond = 0\<rparr>\<rparr>) []"
    using v1 C4_date_formats [where mo = 4 and d = 9 and y = 2017 and h' = 7 and mi = 49
        and s = 39 and pm = True and rest = "[''--------'']" and m = NewEntry and mts = "[]"]
    by blast
  have b: "scan_loop ((''DATE: '' @ date24 1 2 2023 15 30 45) # [''--------'']) NewEntry [] =
      scan_loop [''--------'']
        (NewEntry\<lparr>Date := \<lparr>Year = int 2023, Month = int 1, Day = int 2, Hour = int 15,
           Minute = int 30, Second = int 45, Nanosecond = 0\<rparr>\<rparr>) []"
    using v2 C4_date_formats [where mo = 1 and d = 2 and y = 2023 and h = 15 and mi = 30
        and s = 45 and rest = "[''--------'']" and m = NewEntry and mts = "[]"]
    by blast
  have c: "scan_loop ((''DATE: '' @ ''02/30/2023 15:30:45'') # []) NewEntry [] =
      (case time_Parse (if HasSuffix ''02/30/2023 15:30:45'' ''AM''
                           \<or> HasSuffix ''02/30/2023 15:30:45'' ''PM''
                        then layout12 else layout24) ''02/30/2023 15:30:45'' of
         Inl e \<Rightarrow> Inl (ErrorfW ''Parsing error on DATE column: '' e)
       | Inr t \<Rightarrow> scan_loop [] (NewEntry\<lparr>Date := t\<rparr>) [])"
    using h C4_date_formats [where v = "''02/30/2023 15:30:45''" and rest = "[]"
        and m = NewEntry and mts = "[]"]
    by blast
  show ?thesis
    using a b c t unfolding f
    by (simp add: Parse_def scan_loop_terminator)
qed

text \<open>
  Claim C4 as stated fails: the value \<open>COMMENT:\<close> matches neither format, yet the line
  \<open>DATE: COMMENT:\<close> is skipped by the guard \<open>value != "COMMENT:"\<close>; the parse does not
  abort and the record is returned with the zero time. And the value
  \<open>04/22/2017 20:41:58: x\<close> matches neither format, yet only its part before the second
  separator is parsed.
\<close>

theorem C4_counterexample:
  "Parse \<lparr>pending = [''DATE: COMMENT:'', ''--------''], scan_err = None\<rparr> = ([NewEntry], None)
   \<and> time_Parse layout24 ''COMMENT:'' = Inl (TimeParseError Mismatch)
   \<and> \<not> HasSuffix ''COMMENT:'' ''AM'' \<and> \<not> HasSuffix ''COMMENT:'' ''PM''
   \<and> map Date (fst (Parse \<lparr>pending = [''DATE: 04/22/2017 20:41:58: x'', ''--------''],
                             scan_err = None\<rparr>))
     = [\<lparr>Year = 2017, Month = 4, Day = 22, Hour = 20, Minute = 41, Second = 58, Nanosecond = 0\<rparr>]
   \<and> time_Parse layout24 ''04/22/2017 20:41:58: x'' = Inl (TimeParseError (ExtraText '': x''))"
  by code_simp

subsection \<open>C5: validation of STATUS\<close>

text \<open>
  Claim C5, as amended. For a line \<open>STATUS: v\<close> read outside a multi-line block, where
  \<open>v\<close> does not contain the separator colon-space and is not the text \<open>COMMENT:\<close>: if
  \<open>v\<close> is Draft, Publish or Future the loop goes on with \<open>Status = v\<close>; otherwise the
  loop aborts with the error whose message is
  \<open>STATUS column is allowed only Draft or Publish or Future. Got\<close> followed by \<open>v\<close>, and
  \<open>Parse\<close> returns no entries together with that error, whatever lines \<open>pre\<close> came
  before (read without error, the last block closed) and whatever entries they sealed.
\<close>

theorem C5_status_validation:
  assumes "plain v" and "v \<noteq> ''COMMENT:''"
  shows "(if v = ''Draft'' \<or> v = ''Publish'' \<or> v = ''Future''
          then scan_loop ((''STATUS: '' @ v) # rest) m mts = scan_loop rest (m\<lparr>Status := v\<rparr>) mts
          else scan_loop ((''STATUS: '' @ v) # rest) m mts =
                 Inl (Errorf (''STATUS column is allowed only Draft or Publish or Future. Got '' @ v))
             \<and> (\<not> capturing False pre \<and> scan_loop pre NewEntry [] = Inr (es, m0)
                \<longrightarrow> Parse \<lparr>pending = pre @ (''STATUS: '' @ v) # rest, scan_err = x\<rparr> =
                     ([], Some (Errorf
                       (''STATUS column is allowed only Draft or Publish or Future. Got '' @ v)))))"
proof -
  have v: "Cut_sep v = None"
    using assms(1) by (rule plainD)
  have kv: "\<And>m mts. scan_loop ((''STATUS'' @ CHR '':'' # CHR '' '' # v) # rest) m mts =
        (case single_line ''STATUS'' v m of Inl e \<Rightarrow> Inl e | Inr m' \<Rightarrow> scan_loop rest m' mts)"
    by (rule scan_loop_key_value [OF plain_keys(7) v assms(2)])
  show ?thesis
    using kv by (simp add: single_line_def Parse_def scan_loop_append)
qed

text \<open>
  The theorem at \<open>STATUS: Published\<close> after a sealed record, and at \<open>STATUS: Draft\<close>.
\<close>

theorem C5_status_validation_witness:
  "Parse \<lparr>pending = [''TITLE: a'', ''--------'', ''STATUS: Published'', ''--------''],
          scan_err = None\<rparr> =
     ([], Some (Errorf
        ''STATUS column is allowed only Draft or Publish or Future. Got Published''))
   \<and> scan_loop [''STATUS: Draft''] NewEntry [] = Inr ([], NewEntry\<lparr>Status := ''Draft''\<rparr>)"
proof -
  have h1: "plain ''Published''"
    unfolding plain_Cut_sep by simp
  have h2: "plain ''Draft''"
    unfolding plain_Cut_sep by simp
  have pre: "\<not> capturing False [''TITLE: a'', ''--------'']
      \<and> scan_loop [''TITLE: a'', ''--------''] NewEntry [] =
          Inr ([NewEntry\<lparr>Title := ''a''\<rparr>], NewEntry)"
    by code_simp
  have "Parse \<lparr>pending = [''TITLE: a'', ''--------''] @ (''STATUS: '' @ ''Published'') # [''--------''],
      scan_err = None\<rparr> =
     ([], Some (Errorf
        (''STATUS column is allowed only Draft or Publish or Future. Got '' @ ''Published'')))"
    using pre C5_status_validation [OF h1, of "[''--------'']" _ _ "[''TITLE: a'', ''--------'']"
        "[NewEntry\<lparr>Title := ''a''\<rparr>]" NewEntry None]
    by simp
  then show ?thesis
    using C5_status_validation [OF h2, of "[]" NewEntry "[]"]
    by simp
qed

text \<open>
  Claim C5 as stated fails: \<open>COMMENT:\<close> is outside the allowed set, yet the line
  \<open>STATUS: COMMENT:\<close> is skipped by the guard \<open>value != "COMMENT:"\<close>; the parse does
  not abort and returns the record.
\<close>

theorem C5_counterexample:
  "Parse \<lparr>pending = [''STATUS: COMMENT:'', ''--------''], scan_err = None\<rparr>
     = ([NewEntry], None)"
  by code_simp

subsection \<open>C6: one entry per record terminator\<close>

text \<open>
  Claim C6. When \<open>Parse\<close> returns without error, it returns as many entries as there are
  terminator lines \<open>--------\<close> outside multi-line blocks. They come in the order of the
  terminators: for lines \<open>pre\<close> that end outside a block, a terminator after them seals
  the entry \<open>m1\<close> then in progress, behind the entries \<open>es1\<close> sealed by \<open>pre\<close> and
  before the entries \<open>es2\<close> sealed by the lines after it. When the lines end, the loop
  returns the sealed entries without error and the entry in progress \<open>m\<close> is dropped;
  no lines give no entries. (When \<open>Parse\<close> returns an error, it returns no entries.)
\<close>

theorem C6_sealed_entries:
  "(Parse s = (es, None) \<longrightarrow> length es = terminators False (pending s))
   \<and> (\<not> capturing False pre \<and> scan_loop pre NewEntry [] = Inr (es1, m1)
        \<and> scan_loop rest NewEntry [] = Inr (es2, m2)
      \<longrightarrow> Parse \<lparr>pending = pre @ ''--------'' # rest, scan_err = x\<rparr> = (es1 @ m1 # es2, None))
   \<and> (scan_loop ls NewEntry [] = Inr (es, m)
      \<longrightarrow> Parse \<lparr>pending = ls, scan_err = x\<rparr> = (es, None))
   \<and> Parse \<lparr>pending = [], scan_err = x\<rparr> = ([], None)
   \<and> (Parse s = (es, Some e) \<longrightarrow> es = [])"
proof (intro conjI impI)
  assume "Parse s = (es, None)"
  then obtain m where "scan_loop (pending s) NewEntry [] = Inr (es, m)"
    by (auto simp: Parse_def split: sum.splits)
  then show "length es = terminators False (pending s)"
    using scan_loop_sealed [of "pending s" NewEntry "[]" es m] by simp
next
  assume a: "\<not> capturing False pre \<and> scan_loop pre NewEntry [] = Inr (es1, m1)
    \<and> scan_loop rest NewEntry [] = Inr (es2, m2)"
  then have "scan_loop (pre @ ''--------'' # rest) NewEntry [] =
      scan_loop rest NewEntry (es1 @ [m1])"
    by (simp add: scan_loop_append scan_loop_terminator)
  also have "\<dots> = Inr ((es1 @ [m1]) @ es2, m2)"
    using a scan_loop_sealed_before [of rest NewEntry "es1 @ [m1]"] by simp
  finally show "Parse \<lparr>pending = pre @ ''--------'' # rest, scan_err = x\<rparr> =
      (es1 @ m1 # es2, None)"
    by (simp add: Parse_def)
next
  assume "scan_loop ls NewEntry [] = Inr (es, m)"
  then show "Parse \<lparr>pending = ls, scan_err = x\<rparr> = (es, None)"
    by (simp add: Parse_def)
next
  show "Parse \<lparr>pending = [], scan_err = x\<rparr> = ([], None)"
    by (simp add: Parse_def)
next
  assume "Parse s = (es, Some e)"
  then show "es = []"
    by (auto simp: Parse_def split: sum.splits)
qed

text \<open>
  The theorem at two sealed records followed by an unterminated third one.
\<close>

theorem C6_sealed_entries_witness:
  "Parse \<lparr>pending = [''TITLE: a'', ''--------'', ''TITLE: b'', ''--------'', ''TITLE: c''],
          scan_err = None\<rparr>
     = ([NewEntry\<lparr>Title := ''a''\<rparr>, NewEntry\<lparr>Title := ''b''\<rparr>], None)
   \<and> terminators False [''TITLE: a'', ''--------'', ''TITLE: b'', ''--------'', ''TITLE: c''] = 2"
proof -
  have pre: "\<not> capturing False [''TITLE: a'']
      \<and> scan_loop [''TITLE: a''] NewEntry [] = Inr ([], NewEntry\<lparr>Title := ''a''\<rparr>)
      \<and> scan_loop [''TITLE: b'', ''--------'', ''TITLE: c''] NewEntry [] =
          Inr ([NewEntry\<lparr>Title := ''b''\<rparr>], NewEntry\<lparr>Title := ''c''\<rparr>)"
    by code_simp
  have p: "Parse \<lparr>pending = [''TITLE: a''] @ ''--------'' # [''TITLE: b'', ''--------'', ''TITLE: c''],
      scan_err = None\<rparr> = ([] @ NewEntry\<lparr>Title := ''a''\<rparr> # [NewEntry\<lparr>Title := ''b''\<rparr>], None)"
    using pre C6_sealed_entries [of _ _ "[''TITLE: a'']" "[]" "NewEntry\<lparr>Title := ''a''\<rparr>"
        "[''TITLE: b'', ''--------'', ''TITLE: c'']" "[NewEntry\<lparr>Title := ''b''\<rparr>]"
        "NewEntry\<lparr>Title := ''c''\<rparr>" None]
    by blast
  then have q: "Parse \<lparr>pending = [''TITLE: a'', ''--------'', ''TITLE: b'', ''--------'', ''TITLE: c''],
      scan_err = None\<rparr> = ([NewEntry\<lparr>Title := ''a''\<rparr>, NewEntry\<lparr>Title := ''b''\<rparr>], None)"
    by simp
  have t: "terminators False [''TITLE: a'', ''--------'', ''TITLE: b'', ''--------'',
      ''TITLE: c''] = 2"
    by code_simp
  show ?thesis
    using q t by simp
qed

subsection \<open>C7: multi-line capture\<close>

text \<open>
  Claim C7. After a line that is exactly one of the five headers, whatever the lines
  \<open>ls\<close> that follow are (shaped like \<open>KEY: value\<close> or not), those before the first
  line \<open>-----\<close> are appended to the field, each with one newline, nothing else changes,
  and the loop goes on behind that line \<open>-----\<close>. If no line \<open>-----\<close> follows, all
  lines are appended and the loop ends without error, the text kept in the entry in
  progress. In every entry \<open>Parse\<close> returns, each multi-line field is empty or ends with
  a newline.
\<close>

theorem C7_multi_line_capture:
  "scan_loop (''BODY:'' # ls) m mts =
     scan_loop (after_block ls) (m\<lparr>Body := Body m @ block_text ls\<rparr>) mts
   \<and> scan_loop (''EXTENDED BODY:'' # ls) m mts =
     scan_loop (after_block ls) (m\<lparr>ExtendedBody := ExtendedBody m @ block_text ls\<rparr>) mts
   \<and> scan_loop (''EXCERPT:'' # ls) m mts =
     scan_loop (after_block ls) (m\<lparr>Excerpt := Excerpt m @ block_text ls\<rparr>) mts
   \<and> scan_loop (''KEYWORDS:'' # ls) m mts =
     scan_loop (after_block ls) (m\<lparr>Keywords := Keywords m @ block_text ls\<rparr>) mts
   \<and> scan_loop (''COMMENT:'' # ls) m mts =
     scan_loop (after_block ls) (m\<lparr>Comment := Comment m @ block_text ls\<rparr>) mts
   \<and> (''-----'' \<notin> set ls \<longrightarrow>
        block_text ls = concat (map (\<lambda>l. l @ [CHR 0x0A]) ls)
        \<and> scan_loop (''BODY:'' # ls) m mts = Inr (mts, m\<lparr>Body := Body m @ block_text ls\<rparr>)
        \<and> scan_loop (''EXTENDED BODY:'' # ls) m mts =
            Inr (mts, m\<lparr>ExtendedBody := ExtendedBody m @ block_text ls\<rparr>)
        \<and> scan_loop (''EXCERPT:'' # ls) m mts =
            Inr (mts, m\<lparr>Excerpt := Excerpt m @ block_text ls\<rparr>)
        \<and> scan_loop (''KEYWORDS:'' # ls) m mts =
            Inr (mts, m\<lparr>Keywords := Keywords m @ block_text ls\<rparr>)
        \<and> scan_loop (''COMMENT:'' # ls) m mts =
            Inr (mts, m\<lparr>Comment := Comment m @ block_text ls\<rparr>))
   \<and> (Parse s = (es, err) \<longrightarrow> list_all multi_fields_terminated es)"
proof -
  have eqs: "scan_loop (''BODY:'' # ls) m mts =
       scan_loop (after_block ls) (m\<lparr>Body := Body m @ block_text ls\<rparr>) mts"
    "scan_loop (''EXTENDED BODY:'' # ls) m mts =
       scan_loop (after_block ls) (m\<lparr>ExtendedBody := ExtendedBody m @ block_text ls\<rparr>) mts"
    "scan_loop (''EXCERPT:'' # ls) m mts =
       scan_loop (after_block ls) (m\<lparr>Excerpt := Excerpt m @ block_text ls\<rparr>) mts"
    "scan_loop (''KEYWORDS:'' # ls) m mts =
       scan_loop (after_block ls) (m\<lparr>Keywords := Keywords m @ block_text ls\<rparr>) mts"
    "scan_loop (''COMMENT:'' # ls) m mts =
       scan_loop (after_block ls) (m\<lparr>Comment := Comment m @ block_text ls\<rparr>) mts"
    by (simp_all add: scan_loop_multi multi_line_def capture_eq)
  have inv: "list_all multi_fields_terminated es" if "Parse s = (es, err)"
  proof (cases "scan_loop (pending s) NewEntry []")
    case (Inl e)
    then show ?thesis using that by (simp add: Parse_def)
  next
    case (Inr r)
    then show ?thesis
      using that scan_loop_terminated [of "pending s" es "snd r"]
      by (cases r) (simp add: Parse_def)
  qed
  show ?thesis
    using eqs inv by (simp add: block_text_open after_block_open)
qed

text \<open>
  The theorem at a body that holds the lines \<open>STATUS: nonsense\<close> and \<open>COMMENT:\<close>, and
  at an excerpt left open at the end of the stream.
\<close>

theorem C7_multi_line_capture_witness:
  "Parse \<lparr>pending = [''BODY:'', ''STATUS: nonsense'', ''COMMENT:'', ''-----'', ''--------'',
                      ''EXCERPT:'', ''left open''], scan_err = None\<rparr>
     = ([NewEntry\<lparr>Body := ''STATUS: nonsense'' @ [CHR 0x0A] @ ''COMMENT:'' @ [CHR 0x0A]\<rparr>],
        None)
   \<and> scan_loop [''EXCERPT:'', ''left open''] NewEntry [] =
       Inr ([], NewEntry\<lparr>Excerpt := ''left open'' @ [CHR 0x0A]\<rparr>)"
proof -
  have p: "Parse \<lparr>pending = [''BODY:'', ''STATUS: nonsense'', ''COMMENT:'', ''-----'',
      ''--------'', ''EXCERPT:'', ''left open''], scan_err = None\<rparr>
     = ([NewEntry\<lparr>Body := ''STATUS: nonsense'' @ [CHR 0x0A] @ ''COMMENT:'' @ [CHR 0x0A]\<rparr>],
        None)"
    by code_simp
  have n: "''-----'' \<notin> set [''left open'']"
    by simp
  have "scan_loop (''EXCERPT:'' # [''left open'']) NewEntry [] =
      Inr ([], NewEntry\<lparr>Excerpt := Excerpt NewEntry @ block_text [''left open'']\<rparr>)"
    using n C7_multi_line_capture [of "[''left open'']" NewEntry "[]"] by blast
  moreover have "Excerpt NewEntry @ block_text [''left open''] = ''left open'' @ [CHR 0x0A]"
    by (simp add: NewEntry_def block_text_def)
  ultimately show ?thesis
    using p by simp
qed

subsection \<open>C8: categories\<close>

text \<open>
  Claim C8, as amended. A line \<open>CATEGORY: v\<close> read outside a multi-line block, where
  \<open>v\<close> does not contain the separator colon-space and is not the text \<open>COMMENT:\<close>,
  appends \<open>v\<close> to the categories and changes nothing else; consecutive such lines append
  their values in order. For every record (any lines without a terminator: fields,
  separators, blocks, stray lines) none of whose category lines has the separator in its
  value, if the lines are read without error, the categories are those the entry had
  before followed by the values of the record's category lines other than \<open>COMMENT:\<close>,
  in order of appearance, duplicates kept; and the entry sealed for such a record by its
  terminator has exactly these categories, whatever comes before and after it. Without
  blocks, these values are the category lines filtered and mapped in order.
\<close>

theorem C8_category_append:
  "(plain v \<and> v \<noteq> ''COMMENT:''
      \<longrightarrow> scan_loop ((''CATEGORY: '' @ v) # rest) m mts =
            scan_loop rest (m\<lparr>Category := Category m @ [v]\<rparr>) mts)
   \<and> ((\<forall>v \<in> set vs. plain v \<and> v \<noteq> ''COMMENT:'')
      \<longrightarrow> scan_loop (map (\<lambda>v. ''CATEGORY: '' @ v) vs @ rest) m mts =
            scan_loop rest (m\<lparr>Category := Category m @ vs\<rparr>) mts)
   \<and> (category_plain False rcd \<and> terminators False rcd = 0
        \<and> scan_loop rcd m mts = Inr (mts', m')
      \<longrightarrow> Category m' = Category m @ category_values False rcd)
   \<and> (\<not> capturing False rcd \<and> category_plain False rcd \<and> terminators False rcd = 0
        \<and> scan_loop (rcd @ ''--------'' # rest') NewEntry before = Inr (sealed, cur)
      \<longrightarrow> Category (sealed ! length before) = category_values False rcd)
   \<and> ((\<forall>l \<in> set ls. l \<notin> set headers)
      \<longrightarrow> category_values False ls =
            map category_value
              (filter (\<lambda>l. starts_with ''CATEGORY: '' l \<and> category_value l \<noteq> ''COMMENT:'') ls))"
proof -
  have one: "scan_loop ((''CATEGORY: '' @ v) # rest) m mts =
      scan_loop rest (m\<lparr>Category := Category m @ [v]\<rparr>) mts"
    if "plain v \<and> v \<noteq> ''COMMENT:''"
    using that scan_loop_categories [of "[v]" rest m mts] by simp
  show ?thesis
    using one scan_loop_categories [of vs rest m mts]
      scan_loop_record_categories [of rcd m mts mts' m']
      scan_loop_sealed_categories [of rcd rest' before sealed cur]
      category_values_flat [of ls]
    by blast
qed

text \<open>
  The theorem at a record with the categories \<open>b\<close>, \<open>a\<close>, \<open>b\<close>, a skipped
  \<open>CATEGORY: COMMENT:\<close>, a title with the separator in its value and a category line
  inside a body, after a record with the category \<open>x\<close>.
\<close>

theorem C8_category_append_witness:
  "map Category
     (fst (Parse \<lparr>pending = [''CATEGORY: x'', ''--------'', ''CATEGORY: b'', ''TITLE: t: u'',
                           ''CATEGORY: COMMENT:'', ''-----'', ''BODY:'', ''CATEGORY: inside'',
                           ''-----'', ''CATEGORY: a'', ''CATEGORY: b'', ''--------''],
                  scan_err = None\<rparr>))
     = [[''x''], [''b'', ''a'', ''b'']]"
proof -
  let ?rcd = "[''CATEGORY: b'', ''TITLE: t: u'', ''CATEGORY: COMMENT:'', ''-----'', ''BODY:'',
    ''CATEGORY: inside'', ''-----'', ''CATEGORY: a'', ''CATEGORY: b'']"
  let ?e = "NewEntry\<lparr>Category := [''x'']\<rparr>"
  let ?f = "NewEntry\<lparr>Title := ''t'', Category := [''b'', ''a'', ''b''],
    Body := ''CATEGORY: inside'' @ [CHR 0x0A]\<rparr>"
  have p: "Parse \<lparr>pending = [''CATEGORY: x'', ''--------'', ''CATEGORY: b'',
      ''TITLE: t: u'', ''CATEGORY: COMMENT:'', ''-----'', ''BODY:'', ''CATEGORY: inside'',
      ''-----'', ''CATEGORY: a'', ''CATEGORY: b'', ''--------''], scan_err = None\<rparr> = ([?e, ?f], None)"
    by code_simp
  have r: "scan_loop (?rcd @ ''--------'' # []) NewEntry [?e] = Inr ([?e, ?f], NewEntry)"
    by code_simp
  have h: "\<not> capturing False ?rcd \<and> category_plain False ?rcd \<and> terminators False ?rcd = 0"
    by (simp add: starts_with_def headers_def category_value_def plain_Cut_sep)
  have v: "category_values False ?rcd = [''b'', ''a'', ''b'']"
    by (simp add: starts_with_def headers_def category_value_def)
  have "Category ([?e, ?f] ! length [?e]) = category_values False ?rcd"
    using h r C8_category_append [where rcd = ?rcd and rest' = "[]" and before = "[?e]"
        and sealed = "[?e, ?f]" and cur = NewEntry]
    by blast
  then show ?thesis
    using p v by simp
qed

text \<open>
  Claim C8 as stated fails: the line \<open>CATEGORY: COMMENT:\<close> is skipped by the guard
  \<open>value != "COMMENT:"\<close> and appends nothing, and the line \<open>CATEGORY: a: b\<close> appends
  only \<open>a\<close>.
\<close>

theorem C8_counterexample:
  "map Category
     (fst (Parse \<lparr>pending = [''CATEGORY: COMMENT:'', ''CATEGORY: a: b'', ''--------''],
                  scan_err = None\<rparr>))
     = [[''a'']]"
  by code_simp

subsection \<open>C9: default values\<close>

text \<open>
  Claim C9. \<open>NewEntry\<close> has \<open>AllowComments = -1\<close>, \<open>AllowPings = -1\<close> and the zero
  value in every other field. \<open>Parse\<close> starts from it (a terminator as first line seals
  \<open>NewEntry\<close> itself) and goes on from it after each terminator. From a fresh entry,
  lines none of which starts with \<open>ALLOW COMMENTS: \<close> or \<open>ALLOW PINGS: \<close> seal only
  entries with \<open>-1\<close> in both fields, whatever was sealed before, and leave \<open>-1\<close> in
  both fields of the entry in progress. A record \<open>rcd\<close> without such lines (no
  terminator inside, its last block closed) that starts at a fresh entry and is followed
  by its terminator is sealed with \<open>-1\<close> in both fields, whatever comes before and
  after it; and an input without such lines yields \<open>-1\<close> in both fields of every entry.
\<close>

theorem C9_default_sentinels:
  "NewEntry =
     \<lparr>Author = [], Title = [], Basename = [], Status = [], AllowComments = - 1,
      AllowPings = - 1, ConvertBreaks = [], Date = zero_Time, PrimaryCategory = [],
      Category = [], Image = [], Body = [], ExtendedBody = [], Excerpt = [], Keywords = [],
      Comment = []\<rparr>
   \<and> Parse \<lparr>pending = ''--------'' # rest, scan_err = x\<rparr> =
       (case scan_loop rest NewEntry [NewEntry] of
          Inl e \<Rightarrow> ([], Some e)
        | Inr (mts, m) \<Rightarrow> (mts, None))
   \<and> scan_loop (''--------'' # rest) m mts = scan_loop rest NewEntry (mts @ [m])
   \<and> (list_all omits_allow ls \<and> scan_loop ls NewEntry mts = Inr (mts', m')
      \<longrightarrow> (\<forall>e \<in> set (drop (length mts) mts'). AllowComments e = - 1 \<and> AllowPings e = - 1)
          \<and> AllowComments m' = - 1 \<and> AllowPings m' = - 1)
   \<and> (\<not> capturing False rcd \<and> list_all omits_allow rcd \<and> terminators False rcd = 0
        \<and> scan_loop (rcd @ ''--------'' # rest') NewEntry before = Inr (sealed, cur)
      \<longrightarrow> AllowComments (sealed ! length before) = - 1 \<and> AllowPings (sealed ! length before) = - 1)
   \<and> (list_all omits_allow (pending s) \<and> Parse s = (es, err)
      \<longrightarrow> (\<forall>e \<in> set es. AllowComments e = - 1 \<and> AllowPings e = - 1))"
proof -
  have new: "NewEntry =
     \<lparr>Author = [], Title = [], Basename = [], Status = [], AllowComments = - 1,
      AllowPings = - 1, ConvertBreaks = [], Date = zero_Time, PrimaryCategory = [],
      Category = [], Image = [], Body = [], ExtendedBody = [], Excerpt = [], Keywords = [],
      Comment = []\<rparr>"
    by (simp add: NewEntry_def DefaultAllowComments_def DefaultAllowPings_def)
  have first: "Parse \<lparr>pending = ''--------'' # rest, scan_err = x\<rparr> =
       (case scan_loop rest NewEntry [NewEntry] of
          Inl e \<Rightarrow> ([], Some e)
        | Inr (mts, m) \<Rightarrow> (mts, None))"
    by (simp add: Parse_def scan_loop_terminator)
  have run: "(\<forall>e \<in> set (drop (length mts) mts'). AllowComments e = - 1 \<and> AllowPings e = - 1)
      \<and> AllowComments m' = - 1 \<and> AllowPings m' = - 1"
    if a: "list_all omits_allow ls \<and> scan_loop ls NewEntry mts = Inr (mts', m')"
  proof -
    obtain new where new: "scan_loop ls NewEntry [] = Inr (new, m')" "mts' = mts @ new"
      using a scan_loop_sealed_before [of ls NewEntry mts]
      by (auto split: sum.splits)
    then have "list_all has_defaults new \<and> has_defaults m'"
      using a scan_loop_defaults [of ls new m'] by simp
    then show ?thesis
      using new(2) by (simp add: has_defaults_def list_all_iff)
  qed
  have all: "\<forall>e \<in> set es. AllowComments e = - 1 \<and> AllowPings e = - 1"
    if a: "list_all omits_allow (pending s) \<and> Parse s = (es, err)"
  proof (cases "scan_loop (pending s) NewEntry []")
    case (Inl e)
    then show ?thesis using a by (simp add: Parse_def)
  next
    case (Inr r)
    then have "scan_loop (pending s) NewEntry [] = Inr (es, snd r)"
      using a by (cases r) (simp add: Parse_def)
    then show ?thesis
      using a scan_loop_defaults [of "pending s" es "snd r"]
      by (simp add: has_defaults_def list_all_iff)
  qed
  show ?thesis
    using new first run all scan_loop_terminator [of rest m mts]
      scan_loop_record_defaults [of rcd rest' before sealed cur]
    by blast
qed

text \<open>
  The theorem at a record without ALLOW lines that follows a record with
  \<open>ALLOW COMMENTS: 1\<close>.
\<close>

theorem C9_default_sentinels_witness:
  "map (\<lambda>e. (AllowComments e, AllowPings e))
     (fst (Parse \<lparr>pending = [''ALLOW COMMENTS: 1'', ''--------'', ''TITLE: a'', ''BODY:'', ''text'',
                           ''-----'', ''--------''], scan_err = None\<rparr>))
     = [(1, - 1), (- 1, - 1)]"
proof -
  let ?rcd = "[''TITLE: a'', ''BODY:'', ''text'', ''-----'']"
  let ?e1 = "NewEntry\<lparr>AllowComments := 1\<rparr>"
  let ?e2 = "NewEntry\<lparr>Title := ''a'', Body := ''text'' @ [CHR 0x0A]\<rparr>"
  have p: "Parse \<lparr>pending = [''ALLOW COMMENTS: 1'', ''--------'', ''TITLE: a'', ''BODY:'', ''text'',
      ''-----'', ''--------''], scan_err = None\<rparr> = ([?e1, ?e2], None)"
    by code_simp
  have r: "scan_loop (?rcd @ ''--------'' # []) NewEntry [?e1] = Inr ([?e1, ?e2], NewEntry)"
    by code_simp
  have h: "\<not> capturing False ?rcd \<and> list_all omits_allow ?rcd \<and> terminators False ?rcd = 0"
    by (simp add: omits_allow_def starts_with_def headers_def)
  have "AllowComments ([?e1, ?e2] ! length [?e1]) = - 1
      \<and> AllowPings ([?e1, ?e2] ! length [?e1]) = - 1"
    using h r C9_default_sentinels [where rcd = ?rcd and rest' = "[]" and before = "[?e1]"
        and sealed = "[?e1, ?e2]" and cur = NewEntry]
    by blast
  then show ?thesis
    using p by (simp add: NewEntry_def DefaultAllowPings_def)
qed

subsection \<open>C10: repeated multi-line blocks\<close>

text \<open>
  Claim C10. A block is appended to what its field already holds: after a closed block
  with the lines \<open>b2\<close> the field is its former text followed by the lines of \<open>b2\<close>,
  each with a newline; and two blocks of the same field, one after the other, leave the
  lines of the first followed by the lines of the second.
\<close>

theorem C10_blocks_accumulate:
  assumes "''-----'' \<notin> set b1" and "''-----'' \<notin> set b2"
  shows "scan_loop (''BODY:'' # b2 @ ''-----'' # rest) m mts =
           scan_loop rest (m\<lparr>Body := Body m @ concat (map (\<lambda>l. l @ [CHR 0x0A]) b2)\<rparr>) mts
       \<and> scan_loop (''BODY:'' # b1 @ ''-----'' # ''BODY:'' # b2 @ ''-----'' # rest) m mts =
           scan_loop rest
             (m\<lparr>Body := Body m @ concat (map (\<lambda>l. l @ [CHR 0x0A]) b1)
                               @ concat (map (\<lambda>l. l @ [CHR 0x0A]) b2)\<rparr>) mts
       \<and> scan_loop (''EXTENDED BODY:'' # b1 @ ''-----'' # ''EXTENDED BODY:'' # b2 @ ''-----'' # rest)
             m mts =
           scan_loop rest
             (m\<lparr>ExtendedBody := ExtendedBody m @ concat (map (\<lambda>l. l @ [CHR 0x0A]) b1)
                               @ concat (map (\<lambda>l. l @ [CHR 0x0A]) b2)\<rparr>) mts
       \<and> scan_loop (''EXCERPT:'' # b1 @ ''-----'' # ''EXCERPT:'' # b2 @ ''-----'' # rest) m mts =
           scan_loop rest
             (m\<lparr>Excerpt := Excerpt m @ concat (map (\<lambda>l. l @ [CHR 0x0A]) b1)
                               @ concat (map (\<lambda>l. l @ [CHR 0x0A]) b2)\<rparr>) mts
       \<and> scan_loop (''KEYWORDS:'' # b1 @ ''-----'' # ''KEYWORDS:'' # b2 @ ''-----'' # rest) m mts =
           scan_loop rest
             (m\<lparr>Keywords := Keywords m @ concat (map (\<lambda>l. l @ [CHR 0x0A]) b1)
                               @ concat (map (\<lambda>l. l @ [CHR 0x0A]) b2)\<rparr>) mts
       \<and> scan_loop (''COMMENT:'' # b1 @ ''-----'' # ''COMMENT:'' # b2 @ ''-----'' # rest) m mts =
           scan_loop rest
             (m\<lparr>Comment := Comment m @ concat (map (\<lambda>l. l @ [CHR 0x0A]) b1)
                               @ concat (map (\<lambda>l. l @ [CHR 0x0A]) b2)\<rparr>) mts"
  using assms
  by (simp add: scan_loop_multi multi_line_def capture_eq block_text_closed
      after_block_closed block_text_open)

text \<open>The theorem at a record with two \<open>BODY:\<close> blocks.\<close>

theorem C10_blocks_accumulate_witness:
  "map Body
     (fst (Parse \<lparr>pending = [''BODY:'', ''one'', ''-----'', ''BODY:'', ''two'', ''three'', ''-----'',
                           ''--------''], scan_err = None\<rparr>))
     = [''one'' @ [CHR 0x0A] @ ''two'' @ [CHR 0x0A] @ ''three'' @ [CHR 0x0A]]"
proof -
  have h1: "''-----'' \<notin> set [''one'']" and h2: "''-----'' \<notin> set [''two'', ''three'']"
    by simp_all
  have "scan_loop (''BODY:'' # [''one''] @ ''-----'' # ''BODY:'' # [''two'', ''three'']
        @ ''-----'' # [''--------'']) NewEntry [] =
      scan_loop [''--------'']
        (NewEntry\<lparr>Body := Body NewEntry @ concat (map (\<lambda>l. l @ [CHR 0x0A]) [''one''])
           @ concat (map (\<lambda>l. l @ [CHR 0x0A]) [''two'', ''three''])\<rparr>) []"
    using C10_blocks_accumulate [OF h1 h2, of "[''--------'']" NewEntry "[]"] by blast
  then show ?thesis
    by (simp add: Parse_def scan_loop_terminator NewEntry_def)
qed

end
